theory Spec2Isabelle
  imports Main "HOL-Library.AList"
begin

section \<open>Strings, numbers and JavaScript objects\<close>

text \<open>
  A JavaScript object used as a dictionary (\<^verbatim>\<open>Record<string, any>\<close>) is an association
  list in property order: \<^verbatim>\<open>obj[k] = v\<close> replaces the value of an existing key where it
  stands and appends a new key at the end, which is \<^const>\<open>AList.update\<close>. All keys written by
  the code below start with \<^verbatim>\<open>#\<close> or \<^verbatim>\<open>:\<close>, so the integer-key reordering of
  JavaScript objects does not arise.
\<close>

definition digit_char :: "nat \<Rightarrow> char" where
  "digit_char d = ''0123456789'' ! d"

text \<open>
  The decimal text of a non-negative integer, as string concatenation
  \<^verbatim>\<open>"..." + n\<close> produces it. The counter of a tracker is a natural number here: it grows
  by one per value and cannot come near \<^verbatim>\<open>2^53\<close>, where a JavaScript number stops
  being exact.
\<close>

fun string_of_nat :: "nat \<Rightarrow> string" where
  "string_of_nat n =
     (if n < 10 then [digit_char n]
      else string_of_nat (n div 10) @ [digit_char (n mod 10)])"

declare string_of_nat.simps [simp del]

text \<open>The operator \<^verbatim>\<open>??\<close>: the left operand unless it is missing.\<close>

definition nullish :: "'a option \<Rightarrow> 'a \<Rightarrow> 'a" where
  "nullish x d = (case x of None \<Rightarrow> d | Some v \<Rightarrow> v)"

text \<open>\<^verbatim>\<open>Array.prototype.join\<close>.\<close>

fun join :: "string \<Rightarrow> string list \<Rightarrow> string" where
  "join sep [] = []"
| "join sep [x] = x"
| "join sep (x # y # ys) = x @ sep @ join sep (y # ys)"

text \<open>\<^verbatim>\<open>path.split(".")\<close>: the empty string splits into one empty part.\<close>

fun split_dot :: "string \<Rightarrow> string list" where
  "split_dot [] = [[]]"
| "split_dot (c # cs) =
     (if c = CHR ''.'' then [] # split_dot cs
      else (case split_dot cs of
              [] \<Rightarrow> [[c]]
            | p # ps \<Rightarrow> (c # p) # ps))"

section \<open>dynamoDbExpressions.ts\<close>

subsection \<open>Operands and conditions\<close>

datatype comparator = EQ | LT | GT | LE | GE | NE

fun comparator_text :: "comparator \<Rightarrow> string" where
  "comparator_text EQ = ''=''"
| "comparator_text LT = ''<''"
| "comparator_text GT = ''>''"
| "comparator_text LE = ''<=''"
| "comparator_text GE = ''>=''"
| "comparator_text NE = ''<>''"

datatype AttributeType =
  T_string | T_stringSet | T_number | T_numberSet | T_binary | T_binarySet
  | T_boolean | T_null | T_list | T_map

fun attributeTypeMap :: "AttributeType \<Rightarrow> string" where
  "attributeTypeMap T_string = ''S''"
| "attributeTypeMap T_stringSet = ''SS''"
| "attributeTypeMap T_number = ''N''"
| "attributeTypeMap T_numberSet = ''NN''"
| "attributeTypeMap T_binary = ''B''"
| "attributeTypeMap T_binarySet = ''BS''"
| "attributeTypeMap T_boolean = ''BOOL''"
| "attributeTypeMap T_null = ''NULL''"
| "attributeTypeMap T_list = ''L''"
| "attributeTypeMap T_map = ''M''"

text \<open>
  The literal operands: a string, a number, a \<^verbatim>\<open>Date\<close> (by its time value), \<^verbatim>\<open>null\<close>,
  and \<^verbatim>\<open>undefined\<close>, which is what reaches the tracker when an optional property is
  missing. Numbers are carried through unchanged and never computed with, so they are
  integers here.
\<close>

datatype literal = LStr string | LNum int | LDate int | LNull | LUndefined

text \<open>
  What the tracker stores for a literal. \<^verbatim>\<open>Date.prototype.toISOString\<close> is a built-in;
  \<open>VIso d\<close> stands for the ISO-8601 text of the date \<open>d\<close>.
\<close>

datatype stored = VStr string | VNum int | VIso int | VNull | VUndefined

fun convertValue :: "literal \<Rightarrow> stored" where
  "convertValue (LDate d) = VIso d"
| "convertValue (LStr s) = VStr s"
| "convertValue (LNum n) = VNum n"
| "convertValue LNull = VNull"
| "convertValue LUndefined = VUndefined"

text \<open>
  \<^verbatim>\<open>Operand = string | number | Date | null | AttributeName | Condition | Size\<close>, and the
  subclasses of \<^verbatim>\<open>Condition\<close>. \<^verbatim>\<open>Eq\<close> and \<^verbatim>\<open>KeyConditionComparison\<close> are subclasses of
  \<^verbatim>\<open>Comparison\<close> that only fix constructor arguments.
\<close>

datatype Operand =
    Literal literal
  | AttributeName string
  | Cond Condition
  | Size string
and Condition =
    Comparison Operand comparator Operand
  | Between Operand Operand Operand
  | BeginsWith Operand string
  | In Operand "Operand list"
  | And "Condition list"
  | Or "Condition list"
  | Not_cond Condition
  | Exists string
  | NotExists string
  | Type string AttributeType
  | Contains string Operand

definition A :: "string \<Rightarrow> Operand" where
  "A name = AttributeName name"

definition Eq :: "Operand \<Rightarrow> Operand \<Rightarrow> Condition" where
  "Eq operand1 operand2 = Comparison operand1 EQ operand2"

definition KeyConditionComparison :: "string \<Rightarrow> comparator \<Rightarrow> Operand \<Rightarrow> Condition" where
  "KeyConditionComparison keyName c operand2 = Comparison (A keyName) c operand2"

text \<open>The only exception the compiler and the builder throw is a plain \<^verbatim>\<open>Error\<close> with a message.\<close>

datatype error = Error string

subsection \<open>AttributeTracker\<close>

record AttributeTracker =
  valueCounter :: nat
  attributeNames :: "(string \<times> string) list"
  attributeValues :: "(string \<times> stored) list"

definition new_AttributeTracker :: AttributeTracker where
  "new_AttributeTracker = \<lparr>valueCounter = 0, attributeNames = [], attributeValues = []\<rparr>"

definition getName :: "string \<Rightarrow> string option \<Rightarrow> AttributeTracker \<Rightarrow> string \<times> AttributeTracker" where
  "getName attrName alias t =
     (let mapped = ''#'' @ nullish alias attrName
      in (mapped, t\<lparr>attributeNames := AList.update mapped attrName (attributeNames t)\<rparr>))"

definition getValue :: "literal \<Rightarrow> string option \<Rightarrow> AttributeTracker \<Rightarrow> string \<times> AttributeTracker" where
  "getValue v alias t =
     (let attrName = nullish alias ''v_sub'';
          mapped = '':'' @ attrName @ string_of_nat (valueCounter t)
      in (mapped,
          t\<lparr>valueCounter := valueCounter t + 1,
            attributeValues := AList.update mapped (convertValue v) (attributeValues t)\<rparr>))"

text \<open>
  \<^verbatim>\<open>escapePath\<close> resolves every part of a dotted path as a name, left to right, on the same
  tracker, and joins the placeholders with dots. Resolving a name never throws.
\<close>

fun escape_parts :: "string list \<Rightarrow> AttributeTracker \<Rightarrow> string list \<times> AttributeTracker" where
  "escape_parts [] t = ([], t)"
| "escape_parts (p # ps) t =
     (case getName p None t of
        (m, t1) \<Rightarrow> (case escape_parts ps t1 of (ms, t2) \<Rightarrow> (m # ms, t2)))"

definition escapePath :: "AttributeTracker \<Rightarrow> string \<Rightarrow> string \<times> AttributeTracker" where
  "escapePath t path = (case escape_parts (split_dot path) t of (ms, t') \<Rightarrow> (join ''.'' ms, t'))"

text \<open>
  \<^verbatim>\<open>AttributeTracker.get\<close> and the \<^verbatim>\<open>build\<close> method of every node. The tracker is mutated
  in place, so each function returns the tracker as it is left, also when an exception
  leaves the function: the result is the pair of the outcome and the tracker.
  \<open>get_all\<close> is \<^verbatim>\<open>list.map((o) => tracker.get(o))\<close> and \<open>build_all\<close> is
  \<^verbatim>\<open>conditions.map((c) => c.build(tracker))\<close>.
\<close>

fun get :: "Operand \<Rightarrow> string option \<Rightarrow> AttributeTracker \<Rightarrow> (error + string) \<times> AttributeTracker"
and build :: "Condition \<Rightarrow> AttributeTracker \<Rightarrow> (error + string) \<times> AttributeTracker"
and get_all :: "Operand list \<Rightarrow> AttributeTracker \<Rightarrow> (error + string list) \<times> AttributeTracker"
and build_all :: "Condition list \<Rightarrow> AttributeTracker \<Rightarrow> (error + string list) \<times> AttributeTracker"
where
  "get (Cond c) alias t = build c t"
| "get (Size path) alias t =
     (case escapePath t path of (p, t1) \<Rightarrow> (Inr (''size('' @ p @ '')''), t1))"
| "get (AttributeName name) alias t =
     (case getName name alias t of (m, t1) \<Rightarrow> (Inr m, t1))"
| "get (Literal v) alias t =
     (case getValue v alias t of (m, t1) \<Rightarrow> (Inr m, t1))"
| "build (Comparison operand1 c operand2) t =
     (case get operand1 None t of
        (Inl e, t1) \<Rightarrow> (Inl e, t1)
      | (Inr attributeName, t1) \<Rightarrow>
          (case get operand2 None t1 of
             (Inl e, t2) \<Rightarrow> (Inl e, t2)
           | (Inr attributeValue, t2) \<Rightarrow>
               (Inr (attributeName @ '' '' @ comparator_text c @ '' '' @ attributeValue), t2)))"
| "build (Between operand start stop) t =
     (case get operand None t of
        (Inl e, t1) \<Rightarrow> (Inl e, t1)
      | (Inr attributeName, t1) \<Rightarrow>
          (case get start None t1 of
             (Inl e, t2) \<Rightarrow> (Inl e, t2)
           | (Inr s, t2) \<Rightarrow>
               (case get stop None t2 of
                  (Inl e, t3) \<Rightarrow> (Inl e, t3)
                | (Inr en, t3) \<Rightarrow>
                    (Inr (attributeName @ '' BETWEEN '' @ s @ '' AND '' @ en), t3))))"
| "build (BeginsWith operand beginsWith) t =
     (case get operand None t of
        (Inl e, t1) \<Rightarrow> (Inl e, t1)
      | (Inr attributeName, t1) \<Rightarrow>
          (case getValue (LStr beginsWith) None t1 of
             (attributeValue, t2) \<Rightarrow>
               (Inr (''begins_with('' @ attributeName @ '', '' @ attributeValue @ '')''), t2)))"
| "build (In operand list) t =
     (case get operand None t of
        (Inl e, t1) \<Rightarrow> (Inl e, t1)
      | (Inr attributeName, t1) \<Rightarrow>
          (case get_all list t1 of
             (Inl e, t2) \<Rightarrow> (Inl e, t2)
           | (Inr vals, t2) \<Rightarrow>
               (Inr (attributeName @ '' IN ('' @ join '', '' vals @ '')''), t2)))"
| "build (And conditions) t =
     (if length conditions < 2
      then (Inl (Error (''And condition must have at least 2 operands but got: ''
                        @ string_of_nat (length conditions))), t)
      else (case build_all conditions t of
              (Inl e, t1) \<Rightarrow> (Inl e, t1)
            | (Inr built, t1) \<Rightarrow> (Inr (''('' @ join '') AND ('' built @ '')''), t1)))"
| "build (Or conditions) t =
     (if length conditions < 2
      then (Inl (Error (''Or condition must have at least 2 operands but got: ''
                        @ string_of_nat (length conditions))), t)
      else (case build_all conditions t of
              (Inl e, t1) \<Rightarrow> (Inl e, t1)
            | (Inr built, t1) \<Rightarrow> (Inr (''('' @ join '') OR ('' built @ '')''), t1)))"
| "build (Not_cond condition) t =
     (case build condition t of
        (Inl e, t1) \<Rightarrow> (Inl e, t1)
      | (Inr s, t1) \<Rightarrow> (Inr (''NOT ('' @ s @ '')''), t1))"
| "build (Exists path) t =
     (case escapePath t path of (p, t1) \<Rightarrow> (Inr (''attribute_exists('' @ p @ '')''), t1))"
| "build (NotExists path) t =
     (case escapePath t path of (p, t1) \<Rightarrow> (Inr (''attribute_not_exists('' @ p @ '')''), t1))"
| "build (Type path ty) t =
     (case getValue (LStr (attributeTypeMap ty)) None t of
        (attributeValue, t1) \<Rightarrow>
          (case escapePath t1 path of
             (p, t2) \<Rightarrow> (Inr (''attribute_type('' @ p @ '', '' @ attributeValue @ '')''), t2)))"
| "build (Contains path operand) t =
     (case get operand None t of
        (Inl e, t1) \<Rightarrow> (Inl e, t1)
      | (Inr attributeValue, t1) \<Rightarrow>
          (case escapePath t1 path of
             (p, t2) \<Rightarrow> (Inr (''contains('' @ p @ '', '' @ attributeValue @ '')''), t2)))"
| "get_all [] t = (Inr [], t)"
| "get_all (x # xs) t =
     (case get x None t of
        (Inl e, t1) \<Rightarrow> (Inl e, t1)
      | (Inr s, t1) \<Rightarrow>
          (case get_all xs t1 of
             (Inl e, t2) \<Rightarrow> (Inl e, t2)
           | (Inr ss, t2) \<Rightarrow> (Inr (s # ss), t2)))"
| "build_all [] t = (Inr [], t)"
| "build_all (c # cs) t =
     (case build c t of
        (Inl e, t1) \<Rightarrow> (Inl e, t1)
      | (Inr s, t1) \<Rightarrow>
          (case build_all cs t1 of
             (Inl e, t2) \<Rightarrow> (Inl e, t2)
           | (Inr ss, t2) \<Rightarrow> (Inr (s # ss), t2)))"

section \<open>dynamoDbQueryBuilder.ts\<close>

subsection \<open>The request and the builder's inputs\<close>

text \<open>An item, a key of the store and a filter value are records the engine never looks into.\<close>

type_synonym item = "(string \<times> stored) list"

text \<open>
  \<^verbatim>\<open>QueryCommandInput | ScanCommandInput\<close>: the fields the builder and the fetch engine
  write, and \<open>ConsistentRead\<close> and \<open>Select\<close> for the fields of the AWS type that only
  \<^verbatim>\<open>withRaw\<close> can set. In the request a missing property and a property set to
  \<^verbatim>\<open>undefined\<close> are both \<open>None\<close>; the table name is set by the constructor and can be
  overridden, also by \<^verbatim>\<open>undefined\<close>.
\<close>

record QueryCommandInput =
  TableName :: "string option"
  IndexName :: "string option"
  KeyConditionExpression :: "string option"
  FilterExpression :: "string option"
  ProjectionExpression :: "string option"
  ExpressionAttributeNames :: "(string \<times> string) list option"
  ExpressionAttributeValues :: "(string \<times> stored) list option"
  Limit :: "int option"
  ExclusiveStartKey :: "item option"
  ScanIndexForward :: "bool option"
  ConsistentRead :: "bool option"
  Select :: "string option"

text \<open>
  \<^verbatim>\<open>Partial<QueryCommandInput>\<close>: every property, the table name too, may be absent, or
  present with a value or with \<^verbatim>\<open>undefined\<close>.
\<close>

datatype 'a override = Absent | Assigned "'a option"

record RawQueryOptions =
  raw_TableName :: "string override"
  raw_IndexName :: "string override"
  raw_KeyConditionExpression :: "string override"
  raw_FilterExpression :: "string override"
  raw_ProjectionExpression :: "string override"
  raw_ExpressionAttributeNames :: "(string \<times> string) list override"
  raw_ExpressionAttributeValues :: "(string \<times> stored) list override"
  raw_Limit :: "int override"
  raw_ExclusiveStartKey :: "item override"
  raw_ScanIndexForward :: "bool override"
  raw_ConsistentRead :: "bool override"
  raw_Select :: "string override"

datatype Operation = Query_op | Scan_op

datatype SortDir = Asc | Desc

text \<open>
  \<^verbatim>\<open>Filters = Record<string, any[]>\<close>, as \<^verbatim>\<open>Object.entries\<close> lists it: the fields in
  property order, each with its array of values.
\<close>

type_synonym Filters = "(string \<times> literal list) list"

record PaginationOptions =
  pageSize :: "int option"
  lastEvaluatedKey :: "item option"
  sortDir :: "SortDir option"

text \<open>
  \<^verbatim>\<open>KeyParams\<close>. The partition key name is a string, absent when empty (the code tests its
  truthiness); the partition key value is declared a string, and the code tests it against
  \<^verbatim>\<open>undefined\<close>, so it is optional here. \<^verbatim>\<open>SortKeyCondition\<close> is one of three
  \<^verbatim>\<open>Condition\<close> classes.
\<close>

record KeyParams =
  partitionKeyName :: string
  partitionKeyValue :: "string option"
  sortKeyName :: "string option"
  sortKeyValue :: "string option"
  sortKeyCondition :: "Condition option"

record IndexParams =
  indexName :: "string option"

text \<open>
  The builder. \<open>query\<close> is the one request object the constructor creates: \<^verbatim>\<open>build\<close>
  writes into it and returns it. The fields \<^verbatim>\<open>expressionAttributeNames\<close> and
  \<^verbatim>\<open>expressionAttributeValues\<close> of the class are never read or written and are left out;
  \<open>fields_opt\<close> is the field \<^verbatim>\<open>fields\<close>.
\<close>

record QueryBuilder =
  tableName :: string
  query :: QueryCommandInput
  index :: "IndexParams option"
  keys :: "KeyParams option"
  filter :: "Filters option"
  filterExpression :: "Condition option"
  fields_opt :: "string list option"
  pagination :: "PaginationOptions option"
  rawQueryOptions :: "RawQueryOptions option"
  tracker :: AttributeTracker

definition new_QueryBuilder :: "string \<Rightarrow> QueryBuilder" where
  "new_QueryBuilder name =
     \<lparr>tableName = name,
      query = \<lparr>TableName = Some name, IndexName = None, KeyConditionExpression = None,
               FilterExpression = None, ProjectionExpression = None,
               ExpressionAttributeNames = None, ExpressionAttributeValues = None,
               Limit = None, ExclusiveStartKey = None, ScanIndexForward = None,
               ConsistentRead = None, Select = None\<rparr>,
      index = None, keys = None, filter = None, filterExpression = None, fields_opt = None,
      pagination = None, rawQueryOptions = None, tracker = new_AttributeTracker\<rparr>"

subsection \<open>The staging methods\<close>

definition withIndex :: "IndexParams \<Rightarrow> QueryBuilder \<Rightarrow> error + QueryBuilder" where
  "withIndex indexParams b =
     (if index b \<noteq> None then Inl (Error ''Only one index can be specified'')
      else Inr (b\<lparr>index := Some indexParams\<rparr>))"

definition withKeys :: "KeyParams \<Rightarrow> QueryBuilder \<Rightarrow> error + QueryBuilder" where
  "withKeys keyParams b =
     (if keys b \<noteq> None then Inl (Error ''Keys can only be specified once per query'')
      else Inr (b\<lparr>keys := Some keyParams\<rparr>))"

definition withFields :: "string list \<Rightarrow> QueryBuilder \<Rightarrow> QueryBuilder" where
  "withFields fs b = b\<lparr>fields_opt := Some fs\<rparr>"

definition withFilter :: "Filters option \<Rightarrow> QueryBuilder \<Rightarrow> error + QueryBuilder" where
  "withFilter filterParams b =
     (if filter b \<noteq> None \<or> filterExpression b \<noteq> None
      then Inl (Error ''Only 1 filter or filter expression can be applied per query'')
      else (case filterParams of
              None \<Rightarrow> Inr b
            | Some f \<Rightarrow> Inr (b\<lparr>filter := Some f\<rparr>)))"

definition withFilterExpression :: "Condition option \<Rightarrow> QueryBuilder \<Rightarrow> error + QueryBuilder" where
  "withFilterExpression fe b =
     (if filter b \<noteq> None \<or> filterExpression b \<noteq> None
      then Inl (Error ''Only 1 filter or filter expression can be applied per query'')
      else (case fe of
              None \<Rightarrow> Inr b
            | Some c \<Rightarrow> Inr (b\<lparr>filterExpression := Some c\<rparr>)))"

definition withPagination :: "PaginationOptions option \<Rightarrow> QueryBuilder \<Rightarrow> QueryBuilder" where
  "withPagination paginationOptions b = b\<lparr>pagination := paginationOptions\<rparr>"

definition withRaw :: "RawQueryOptions \<Rightarrow> QueryBuilder \<Rightarrow> QueryBuilder" where
  "withRaw additionalQueryOptions b = b\<lparr>rawQueryOptions := Some additionalQueryOptions\<rparr>"

subsection \<open>The private build steps\<close>

text \<open>
  \<^verbatim>\<open>Object.assign(query, raw)\<close>: every property present in the overrides replaces the
  request's, also when its value is \<^verbatim>\<open>undefined\<close>; a property absent from the overrides
  leaves the request's as it is.
\<close>

definition assign_opt :: "'a option \<Rightarrow> 'a override \<Rightarrow> 'a option" where
  "assign_opt old new = (case new of Absent \<Rightarrow> old | Assigned v \<Rightarrow> v)"

definition assign_raw :: "QueryCommandInput \<Rightarrow> RawQueryOptions option \<Rightarrow> QueryCommandInput" where
  "assign_raw q raw =
     (case raw of
        None \<Rightarrow> q
      | Some r \<Rightarrow>
          \<lparr>TableName = assign_opt (TableName q) (raw_TableName r),
           IndexName = assign_opt (IndexName q) (raw_IndexName r),
           KeyConditionExpression =
             assign_opt (KeyConditionExpression q) (raw_KeyConditionExpression r),
           FilterExpression = assign_opt (FilterExpression q) (raw_FilterExpression r),
           ProjectionExpression =
             assign_opt (ProjectionExpression q) (raw_ProjectionExpression r),
           ExpressionAttributeNames =
             assign_opt (ExpressionAttributeNames q) (raw_ExpressionAttributeNames r),
           ExpressionAttributeValues =
             assign_opt (ExpressionAttributeValues q) (raw_ExpressionAttributeValues r),
           Limit = assign_opt (Limit q) (raw_Limit r),
           ExclusiveStartKey = assign_opt (ExclusiveStartKey q) (raw_ExclusiveStartKey r),
           ScanIndexForward = assign_opt (ScanIndexForward q) (raw_ScanIndexForward r),
           ConsistentRead = assign_opt (ConsistentRead q) (raw_ConsistentRead r),
           Select = assign_opt (Select q) (raw_Select r)\<rparr>)"

text \<open>The truthiness of an optional string: present and not empty.\<close>

definition truthy :: "string option \<Rightarrow> bool" where
  "truthy s = (case s of None \<Rightarrow> False | Some x \<Rightarrow> x \<noteq> [])"

definition string_operand :: "string option \<Rightarrow> Operand" where
  "string_operand s = Literal (case s of None \<Rightarrow> LUndefined | Some x \<Rightarrow> LStr x)"

text \<open>
  A step that compiles an expression evaluates it before it assigns the request's field,
  so when the compilation throws the request is as it was and only the tracker has moved.
\<close>

definition buildKeys ::
  "QueryCommandInput \<Rightarrow> KeyParams option \<Rightarrow> AttributeTracker
     \<Rightarrow> (error + QueryCommandInput) \<times> AttributeTracker" where
  "buildKeys q ks t =
     (case ks of
        None \<Rightarrow> (Inr q, t)
      | Some k \<Rightarrow>
          (let partitionKeyCondition =
                 Eq (A (partitionKeyName k)) (string_operand (partitionKeyValue k));
               expr =
                 (if truthy (sortKeyName k) \<and> sortKeyValue k \<noteq> None
                  then And [partitionKeyCondition,
                            Eq (A (the (sortKeyName k))) (string_operand (sortKeyValue k))]
                  else (case sortKeyCondition k of
                          Some c \<Rightarrow> And [partitionKeyCondition, c]
                        | None \<Rightarrow> partitionKeyCondition))
           in (case build expr t of
                 (Inl e, t1) \<Rightarrow> (Inl e, t1)
               | (Inr s, t1) \<Rightarrow> (Inr (q\<lparr>KeyConditionExpression := Some s\<rparr>), t1))))"

definition buildIndex :: "QueryCommandInput \<Rightarrow> IndexParams option \<Rightarrow> QueryCommandInput" where
  "buildIndex q ix =
     (case ix of
        None \<Rightarrow> q
      | Some i \<Rightarrow> (if truthy (indexName i) then q\<lparr>IndexName := indexName i\<rparr> else q))"

definition buildPagination ::
  "QueryCommandInput \<Rightarrow> PaginationOptions option \<Rightarrow> QueryCommandInput" where
  "buildPagination q pg =
     (case pg of
        None \<Rightarrow> q
      | Some p \<Rightarrow>
          (let q1 = q\<lparr>Limit := pageSize p\<rparr>;
               q2 = (case lastEvaluatedKey p of
                       None \<Rightarrow> q1
                     | Some k \<Rightarrow> q1\<lparr>ExclusiveStartKey := Some k\<rparr>)
           in (if sortDir p = Some Desc then q2\<lparr>ScanIndexForward := Some False\<rparr> else q2)))"

text \<open>\<^verbatim>\<open>generateFilterExpression\<close>: one condition per field, in the order of the entries.\<close>

definition field_condition :: "string \<times> literal list \<Rightarrow> Condition" where
  "field_condition entry =
     (case entry of
        (key, vals) \<Rightarrow>
          (if length vals = 1 then Comparison (A key) EQ (Literal (hd vals))
           else Or (map (\<lambda>v. Comparison (A key) EQ (Literal v)) vals)))"

definition generateFilterExpression :: "Filters \<Rightarrow> Condition" where
  "generateFilterExpression filters =
     (let comparisons = map field_condition filters
      in (if length filters = 1 then hd comparisons else And comparisons))"

definition generateFilterInput ::
  "Filters option \<Rightarrow> AttributeTracker \<Rightarrow> (error + string option) \<times> AttributeTracker" where
  "generateFilterInput filterInputParams t =
     (case filterInputParams of
        None \<Rightarrow> (Inr None, t)
      | Some filters \<Rightarrow>
          (if length filters > 0
           then (case build (generateFilterExpression filters) t of
                   (Inl e, t1) \<Rightarrow> (Inl e, t1)
                 | (Inr s, t1) \<Rightarrow> (Inr (Some s), t1))
           else (Inr None, t)))"

definition buildFilter ::
  "QueryCommandInput \<Rightarrow> Filters option \<Rightarrow> AttributeTracker
     \<Rightarrow> (error + QueryCommandInput) \<times> AttributeTracker" where
  "buildFilter q f t =
     (case f of
        None \<Rightarrow> (Inr q, t)
      | Some filters \<Rightarrow>
          (case generateFilterInput (Some filters) t of
             (Inl e, t1) \<Rightarrow> (Inl e, t1)
           | (Inr s, t1) \<Rightarrow> (Inr (q\<lparr>FilterExpression := s\<rparr>), t1)))"

definition buildFilterExpression ::
  "QueryCommandInput \<Rightarrow> Condition option \<Rightarrow> AttributeTracker
     \<Rightarrow> (error + QueryCommandInput) \<times> AttributeTracker" where
  "buildFilterExpression q fe t =
     (case fe of
        None \<Rightarrow> (Inr q, t)
      | Some c \<Rightarrow>
          (case build c t of
             (Inl e, t1) \<Rightarrow> (Inl e, t1)
           | (Inr s, t1) \<Rightarrow> (Inr (q\<lparr>FilterExpression := Some s\<rparr>), t1)))"

text \<open>
  \<^verbatim>\<open>generateProjectionExpression\<close>. A JavaScript \<^verbatim>\<open>Set\<close> keeps its members in insertion
  order and ignores the insertion of a member it has: \<open>set_add\<close>. The placeholders come
  from \<^verbatim>\<open>tracker.get(A(field))\<close>, which for a name is \<open>getName\<close> without an alias.
\<close>

definition set_add :: "'a \<Rightarrow> 'a list \<Rightarrow> 'a list" where
  "set_add x xs = (if x \<in> set xs then xs else xs @ [x])"

fun add_projection_fields ::
  "string list \<Rightarrow> string list \<Rightarrow> AttributeTracker \<Rightarrow> string list \<times> AttributeTracker" where
  "add_projection_fields [] projectionFields t = (projectionFields, t)"
| "add_projection_fields (field # rest) projectionFields t =
     (case getName field None t of
        (fieldName, t1) \<Rightarrow> add_projection_fields rest (set_add fieldName projectionFields) t1)"

definition projection_placeholders ::
  "KeyParams option \<Rightarrow> string list \<Rightarrow> AttributeTracker \<Rightarrow> string list \<times> AttributeTracker" where
  "projection_placeholders ks fs t =
     (case add_projection_fields fs [] t of
        (projectionFields, t1) \<Rightarrow>
          (case ks of
             None \<Rightarrow> (projectionFields, t1)
           | Some k \<Rightarrow>
               (case getName (partitionKeyName k) None t1 of
                  (pkName, t2) \<Rightarrow>
                    (if truthy (sortKeyName k)
                     then (case getName (the (sortKeyName k)) None t2 of
                             (skName, t3) \<Rightarrow> (set_add skName (set_add pkName projectionFields), t3))
                     else (set_add pkName projectionFields, t2)))))"

definition generateProjectionExpression ::
  "KeyParams option \<Rightarrow> string list \<Rightarrow> AttributeTracker \<Rightarrow> string \<times> AttributeTracker" where
  "generateProjectionExpression ks fs t =
     (case projection_placeholders ks fs t of (ps, t') \<Rightarrow> (join '','' ps, t'))"

definition buildFields ::
  "KeyParams option \<Rightarrow> QueryCommandInput \<Rightarrow> string list option \<Rightarrow> AttributeTracker
     \<Rightarrow> QueryCommandInput \<times> AttributeTracker" where
  "buildFields ks q fs t =
     (case fs of
        None \<Rightarrow> (q, t)
      | Some fl \<Rightarrow>
          (case generateProjectionExpression ks fl t of
             (s, t1) \<Rightarrow> (q\<lparr>ProjectionExpression := Some s\<rparr>, t1)))"

definition buildExpressionAttributeNamesAndValues ::
  "QueryCommandInput \<Rightarrow> (string \<times> string) list \<Rightarrow> (string \<times> stored) list \<Rightarrow> QueryCommandInput" where
  "buildExpressionAttributeNamesAndValues q names vals =
     (let q1 = (if length names > 0 then q\<lparr>ExpressionAttributeNames := Some names\<rparr> else q)
      in (if length vals > 0 then q1\<lparr>ExpressionAttributeValues := Some vals\<rparr> else q1))"

subsection \<open>build\<close>

definition missing_keys_message :: string where
  "missing_keys_message =
     ''A key configuration using `withKeys` containing a partition key name and value is required for a query operation''"

text \<open>
  \<^verbatim>\<open>build\<close> returns the request or the exception, and the builder as it is left: the
  tracker is replaced first, and \<^verbatim>\<open>Object.assign(this.query, ...)\<close> and every step after it
  write into the builder's own request object, which is also the object returned.
\<close>

definition QueryBuilder_build ::
  "Operation \<Rightarrow> QueryBuilder \<Rightarrow> (error + QueryCommandInput) \<times> QueryBuilder" where
  "QueryBuilder_build operation b =
     (let t0 = new_AttributeTracker in
      if operation = Query_op \<and>
         (case keys b of
            None \<Rightarrow> True
          | Some k \<Rightarrow> partitionKeyName k = [] \<or> partitionKeyValue k = None)
      then (Inl (Error missing_keys_message), b\<lparr>tracker := t0\<rparr>)
      else
        (let q0 = assign_raw (query b) (rawQueryOptions b) in
         case (if operation = Query_op then buildKeys q0 (keys b) t0 else (Inr q0, t0)) of
           (Inl e, t1) \<Rightarrow> (Inl e, b\<lparr>query := q0, tracker := t1\<rparr>)
         | (Inr q1, t1) \<Rightarrow>
             (let q2 = buildIndex q1 (index b) in
              case buildFilter q2 (filter b) t1 of
                (Inl e, t2) \<Rightarrow> (Inl e, b\<lparr>query := q2, tracker := t2\<rparr>)
              | (Inr q3, t2) \<Rightarrow>
                  (case buildFilterExpression q3 (filterExpression b) t2 of
                     (Inl e, t3) \<Rightarrow> (Inl e, b\<lparr>query := q3, tracker := t3\<rparr>)
                   | (Inr q4, t3) \<Rightarrow>
                       (case buildFields (keys b) q4 (fields_opt b) t3 of
                          (q5, t4) \<Rightarrow>
                            (let q6 = buildPagination q5 (pagination b);
                                 q7 = buildExpressionAttributeNamesAndValues q6
                                        (attributeNames t4) (attributeValues t4)
                             in (Inr q7, b\<lparr>query := q7, tracker := t4\<rparr>)))))))"

section \<open>The fetch engine of BaseDynamoRepository\<close>

text \<open>
  A response of the store: the page's items and the continuation key, each optional. The
  other properties of the output are copied through by \<^verbatim>\<open>{ ...result, Items: items }\<close>
  and are not modelled.
\<close>

record QueryCommandOutput =
  Items :: "item list option"
  LastEvaluatedKey :: "item option"

datatype Command = QueryCommand QueryCommandInput | ScanCommand QueryCommandInput

text \<open>
  The document client is given by the replies it makes to the successive \<^verbatim>\<open>send\<close> calls,
  whatever the command sent: a response, or a rejection, which the engine does not catch.
\<close>

datatype store_error = StoreError string

datatype reply = Resolved QueryCommandOutput | Rejected store_error

text \<open>
  The limit and the count are whole numbers, as the store's \<^verbatim>\<open>Limit\<close> and an array's
  length are. \<^verbatim>\<open>inputLimit && inputLimit > 0\<close> holds of a limit that is present, not 0,
  and positive.
\<close>

definition hasResultBeenTruncated :: "int option \<Rightarrow> nat option \<Rightarrow> item option \<Rightarrow> bool" where
  "hasResultBeenTruncated inputLimit aggregatedOutputLength lastKey =
     (let outputLength = nullish aggregatedOutputLength 0
      in (case inputLimit of
            None \<Rightarrow> lastKey \<noteq> None
          | Some l \<Rightarrow>
              (if l \<noteq> 0 \<and> l > 0 then lastKey \<noteq> None \<and> int outputLength < l
               else lastKey \<noteq> None)))"

definition items_or_empty :: "QueryCommandOutput \<Rightarrow> item list" where
  "items_or_empty r = nullish (Items r) []"

text \<open>\<^verbatim>\<open>queryInput.Limit ? queryInput.Limit - items.length : undefined\<close>\<close>

definition remaining_limit :: "int option \<Rightarrow> nat \<Rightarrow> int option" where
  "remaining_limit l n =
     (case l of
        None \<Rightarrow> None
      | Some x \<Rightarrow> (if x \<noteq> 0 then Some (x - int n) else None))"

definition next_page_input :: "QueryCommandInput \<Rightarrow> nat \<Rightarrow> item option \<Rightarrow> QueryCommandInput" where
  "next_page_input input n lastKey =
     input\<lparr>Limit := remaining_limit (Limit input) n, ExclusiveStartKey := lastKey\<rparr>"

text \<open>
  The \<^verbatim>\<open>while\<close> loop, which \<^verbatim>\<open>queryAll\<close> and \<^verbatim>\<open>scanAll\<close> both contain word for word: while
  the result is judged truncated, send a \<^verbatim>\<open>QueryCommand\<close> and append the page. The result
  is the list of commands sent, in order, and the outcome: the output returned, the
  rejection thrown, or \<open>None\<close> when the last command sent is one the given replies do not
  answer. The loop need not end: a store that keeps answering with a continuation key and
  no items is asked for ever.
\<close>

fun page_loop ::
  "QueryCommandInput \<Rightarrow> item list \<Rightarrow> QueryCommandOutput \<Rightarrow> reply list
     \<Rightarrow> Command list \<times> (store_error + QueryCommandOutput) option" where
  "page_loop input items result [] =
     (if hasResultBeenTruncated (Limit input) (Some (length items)) (LastEvaluatedKey result)
      then ([QueryCommand (next_page_input input (length items) (LastEvaluatedKey result))], None)
      else ([], Some (Inr (result\<lparr>Items := Some items\<rparr>))))"
| "page_loop input items result (rep # rest) =
     (if hasResultBeenTruncated (Limit input) (Some (length items)) (LastEvaluatedKey result)
      then (let cmd = QueryCommand (next_page_input input (length items) (LastEvaluatedKey result))
            in (case rep of
                  Rejected e \<Rightarrow> ([cmd], Some (Inl e))
                | Resolved r \<Rightarrow>
                    (case page_loop input (items @ items_or_empty r) r rest of
                       (cmds, out) \<Rightarrow> (cmd # cmds, out))))
      else ([], Some (Inr (result\<lparr>Items := Some items\<rparr>))))"

text \<open>
  \<^verbatim>\<open>queryAll\<close> sends the request as a \<^verbatim>\<open>QueryCommand\<close>, \<^verbatim>\<open>scanAll\<close> as a
  \<^verbatim>\<open>ScanCommand\<close>; both then run the loop above on the first response.
\<close>

definition queryAll ::
  "QueryCommandInput \<Rightarrow> reply list \<Rightarrow> Command list \<times> (store_error + QueryCommandOutput) option" where
  "queryAll queryInput script =
     (case script of
        [] \<Rightarrow> ([QueryCommand queryInput], None)
      | Rejected e # rest \<Rightarrow> ([QueryCommand queryInput], Some (Inl e))
      | Resolved result # rest \<Rightarrow>
          (case page_loop queryInput (items_or_empty result) result rest of
             (cmds, out) \<Rightarrow> (QueryCommand queryInput # cmds, out)))"

definition scanAll ::
  "QueryCommandInput \<Rightarrow> reply list \<Rightarrow> Command list \<times> (store_error + QueryCommandOutput) option" where
  "scanAll scanInput script =
     (case script of
        [] \<Rightarrow> ([ScanCommand scanInput], None)
      | Rejected e # rest \<Rightarrow> ([ScanCommand scanInput], Some (Inl e))
      | Resolved result # rest \<Rightarrow>
          (case page_loop scanInput (items_or_empty result) result rest of
             (cmds, out) \<Rightarrow> (ScanCommand scanInput # cmds, out)))"

text \<open>
  The public operations on top: \<^verbatim>\<open>queryWithPagination\<close> returns the merged items and the
  last response's continuation key, \<^verbatim>\<open>queryWithAggregation\<close> and
  \<^verbatim>\<open>scanWithAggregation\<close> the items alone.
\<close>

record PaginatedOutput =
  items :: "item list"
  lastEvaluatedKey_out :: "item option"

definition queryWithPagination ::
  "QueryCommandInput \<Rightarrow> reply list \<Rightarrow> Command list \<times> (store_error + PaginatedOutput) option" where
  "queryWithPagination queryInput script =
     (case queryAll queryInput script of
        (cmds, None) \<Rightarrow> (cmds, None)
      | (cmds, Some (Inl e)) \<Rightarrow> (cmds, Some (Inl e))
      | (cmds, Some (Inr result)) \<Rightarrow>
          (cmds, Some (Inr \<lparr>items = items_or_empty result,
                             lastEvaluatedKey_out = LastEvaluatedKey result\<rparr>)))"

definition queryWithAggregation ::
  "QueryCommandInput \<Rightarrow> reply list \<Rightarrow> Command list \<times> (store_error + item list) option" where
  "queryWithAggregation queryInput script =
     (case queryAll queryInput script of
        (cmds, None) \<Rightarrow> (cmds, None)
      | (cmds, Some (Inl e)) \<Rightarrow> (cmds, Some (Inl e))
      | (cmds, Some (Inr result)) \<Rightarrow> (cmds, Some (Inr (items_or_empty result))))"

definition scanWithAggregation ::
  "QueryCommandInput \<Rightarrow> reply list \<Rightarrow> Command list \<times> (store_error + item list) option" where
  "scanWithAggregation scanInput script =
     (case scanAll scanInput script of
        (cmds, None) \<Rightarrow> (cmds, None)
      | (cmds, Some (Inl e)) \<Rightarrow> (cmds, Some (Inl e))
      | (cmds, Some (Inr result)) \<Rightarrow> (cmds, Some (Inr (items_or_empty result))))"

section \<open>Vocabulary of the statements\<close>

text \<open>A compiled condition wrapped in parentheses.\<close>

definition parenthesized :: "string \<Rightarrow> string" where
  "parenthesized s = ''('' @ s @ '')''"

text \<open>
  The sub-conditions of a combinator compiled in turn, each by its own \<^verbatim>\<open>build\<close>:
  \<open>tracker_before cs t i\<close> is the tracker on which the \<open>i\<close>-th sub-condition is compiled,
  that is \<open>t\<close> for the first and for every other the tracker as the one before left it,
  and \<open>compiled cs t i\<close> is the outcome of that compilation, its text or its error.
\<close>

fun tracker_before :: "Condition list \<Rightarrow> AttributeTracker \<Rightarrow> nat \<Rightarrow> AttributeTracker" where
  "tracker_before cs t 0 = t"
| "tracker_before cs t (Suc i) = snd (build (cs ! i) (tracker_before cs t i))"

definition compiled :: "Condition list \<Rightarrow> AttributeTracker \<Rightarrow> nat \<Rightarrow> error + string" where
  "compiled cs t i = fst (build (cs ! i) (tracker_before cs t i))"

text \<open>The name placeholder of a field without an alias.\<close>

definition placeholder :: "string \<Rightarrow> string" where
  "placeholder name = ''#'' @ name"

text \<open>The key fields of a key configuration: the partition key and the sort key, if any.\<close>

definition key_fields :: "KeyParams \<Rightarrow> string list" where
  "key_fields k =
     partitionKeyName k # (if truthy (sortKeyName k) then [the (sortKeyName k)] else [])"

text \<open>A list without its repetitions, every member where it first occurs.\<close>

definition first_occurrences :: "'a list \<Rightarrow> 'a list" where
  "first_occurrences xs = rev (remdups (rev xs))"

text \<open>
  The text of a simple filter, following the words of the specification. An equality
  comparison of a field with its \<open>n\<close>-th value placeholder; the \<open>k\<close> comparisons of a
  field, numbered from \<open>n\<close>; the condition of a field with \<open>k\<close> values, one comparison or
  an OR of parenthesized comparisons; the conditions of the fields, each numbering on
  from the previous one; and the filter, which is the one field's condition or the AND of
  the parenthesized conditions of the fields.
\<close>

definition spec_equality :: "string \<Rightarrow> nat \<Rightarrow> string" where
  "spec_equality f n = placeholder f @ '' = :v_sub'' @ string_of_nat n"

fun spec_equalities :: "string \<Rightarrow> nat \<Rightarrow> nat \<Rightarrow> string list" where
  "spec_equalities f 0 n = []"
| "spec_equalities f (Suc k) n = spec_equality f n # spec_equalities f k (Suc n)"

definition spec_field_text :: "string \<Rightarrow> nat \<Rightarrow> nat \<Rightarrow> string" where
  "spec_field_text f k n =
     (if k = 1 then spec_equality f n
      else join '' OR '' (map parenthesized (spec_equalities f k n)))"

fun spec_field_texts :: "Filters \<Rightarrow> nat \<Rightarrow> string list" where
  "spec_field_texts [] n = []"
| "spec_field_texts ((f, vs) # rest) n =
     spec_field_text f (length vs) n # spec_field_texts rest (n + length vs)"

definition spec_filter_text :: "Filters \<Rightarrow> nat \<Rightarrow> string" where
  "spec_filter_text filters n =
     (if length filters = 1 then hd (spec_field_texts filters n)
      else join '' AND '' (map parenthesized (spec_field_texts filters n)))"

text \<open>The number of values in a filter map.\<close>

definition value_count :: "Filters \<Rightarrow> nat" where
  "value_count filters = sum_list (map (\<lambda>e. length (snd e)) filters)"

text \<open>
  A partition key name and a partition key value are both present in the staged key
  configuration.
\<close>

definition keys_present :: "QueryBuilder \<Rightarrow> bool" where
  "keys_present b =
     (case keys b of
        None \<Rightarrow> False
      | Some k \<Rightarrow> partitionKeyName k \<noteq> [] \<and> partitionKeyValue k \<noteq> None)"

text \<open>
  A builder with a partition key staged, the request its first \<^verbatim>\<open>build()\<close> returns, and
  two pagination settings: one that resumes after a key, and one for a first page.
\<close>

definition keyed_builder :: QueryBuilder where
  "keyed_builder =
     (new_QueryBuilder ''table'')
       \<lparr>keys := Some \<lparr>partitionKeyName = ''pk'', partitionKeyValue = Some ''v'',
                      sortKeyName = None, sortKeyValue = None, sortKeyCondition = None\<rparr>\<rparr>"

definition keyed_request :: QueryCommandInput where
  "keyed_request =
     (query (new_QueryBuilder ''table''))
       \<lparr>KeyConditionExpression := Some ''#pk = :v_sub0'',
        ExpressionAttributeNames := Some [(''#pk'', ''pk'')],
        ExpressionAttributeValues := Some [('':v_sub0'', VStr ''v'')]\<rparr>"

definition resumed_page :: PaginationOptions where
  "resumed_page =
     \<lparr>pageSize = Some 5, lastEvaluatedKey = Some [(''pk'', VStr ''v''), (''sk'', VStr ''9'')],
      sortDir = Some Desc\<rparr>"

definition first_page :: PaginationOptions where
  "first_page = \<lparr>pageSize = Some 5, lastEvaluatedKey = None, sortDir = None\<rparr>"

text \<open>The items of a list of pages, one page after the other.\<close>

definition accumulated :: "QueryCommandOutput list \<Rightarrow> item list" where
  "accumulated pages = concat (map items_or_empty pages)"

text \<open>
  The request of a follow-up call in the words of the specification, amended for the limit
  0: the limit is the original limit minus the number of items so far, or no limit if
  none or 0 was requested, and the exclusive start key is the given continuation key.
\<close>

definition follow_up :: "QueryCommandInput \<Rightarrow> nat \<Rightarrow> item option \<Rightarrow> QueryCommandInput" where
  "follow_up input n k =
     input\<lparr>Limit := (case Limit input of
                       None \<Rightarrow> None
                     | Some l \<Rightarrow> if l = 0 then None else Some (l - int n)),
            ExclusiveStartKey := k\<rparr>"

text \<open>
  The loop consumes exactly the given pages, under a limit: there is a page, after every
  page but the last the result accumulated so far is judged truncated, and after the last
  it is not.
\<close>

definition consumed_exactly :: "int option \<Rightarrow> QueryCommandOutput list \<Rightarrow> bool" where
  "consumed_exactly limit pages =
     (pages \<noteq> []
      \<and> (\<forall>i < length pages - 1.
             hasResultBeenTruncated limit (Some (length (accumulated (take (Suc i) pages))))
               (LastEvaluatedKey (pages ! i)))
      \<and> \<not> hasResultBeenTruncated limit (Some (length (accumulated pages)))
               (LastEvaluatedKey (last pages)))"

text \<open>
  The commands for pages so consumed: the first command on the request itself, and for
  every page but the last a \<^verbatim>\<open>QueryCommand\<close> on the follow-up request.
\<close>

definition expected_commands ::
  "(QueryCommandInput \<Rightarrow> Command) \<Rightarrow> QueryCommandInput \<Rightarrow> QueryCommandOutput list \<Rightarrow> Command list" where
  "expected_commands first input pages =
     first input
       # map (\<lambda>i. QueryCommand (follow_up input (length (accumulated (take (Suc i) pages)))
                                   (LastEvaluatedKey (pages ! i))))
             [0..<length pages - 1]"

text \<open>
  The pagination scenario of the specification: three pages of three items, a
  continuation key after the first and the second and none after the third, and a request
  with a given limit.
\<close>

definition item_n :: "int \<Rightarrow> item" where
  "item_n n = [(''id'', VNum n)]"

definition page1 :: QueryCommandOutput where
  "page1 = \<lparr>Items = Some [item_n 1, item_n 2, item_n 3], LastEvaluatedKey = Some (item_n 3)\<rparr>"

definition page2 :: QueryCommandOutput where
  "page2 = \<lparr>Items = Some [item_n 4, item_n 5, item_n 6], LastEvaluatedKey = Some (item_n 6)\<rparr>"

definition page3 :: QueryCommandOutput where
  "page3 = \<lparr>Items = Some [item_n 7, item_n 8, item_n 9], LastEvaluatedKey = None\<rparr>"

definition request :: "int option \<Rightarrow> QueryCommandInput" where
  "request limit = (query (new_QueryBuilder ''table''))\<lparr>Limit := limit\<rparr>"

section \<open>The truncation decision\<close>

text \<open>
  Claim C1. With a limit \<open>l\<close> that is set and positive, the result is judged truncated
  exactly when a continuation key is present and the accumulated count is strictly below
  \<open>l\<close>; with no limit, or the limit 0, exactly when a continuation key is present. A
  missing count is read as 0. This holds for every limit, count and key; the one case the
  two rules leave open, a negative limit, is decided like no limit.
\<close>

theorem hasResultBeenTruncated_decision:
  "(\<forall>l. inputLimit = Some l \<and> 0 < l \<longrightarrow>
       hasResultBeenTruncated inputLimit n lastKey
         = (lastKey \<noteq> None \<and> int (nullish n 0) < l))
   \<and> (inputLimit = None \<or> inputLimit = Some 0 \<longrightarrow>
       hasResultBeenTruncated inputLimit n lastKey = (lastKey \<noteq> None))
   \<and> (\<forall>l. inputLimit = Some l \<and> l < 0 \<longrightarrow>
       hasResultBeenTruncated inputLimit n lastKey = (lastKey \<noteq> None))"
  by (auto simp: hasResultBeenTruncated_def nullish_def split: option.splits)

theorem hasResultBeenTruncated_decision_witness:
  "hasResultBeenTruncated (Some 6) (Some 3) (Some [])
   \<and> \<not> hasResultBeenTruncated (Some 3) (Some 3) (Some [])
   \<and> \<not> hasResultBeenTruncated (Some 6) (Some 3) None
   \<and> hasResultBeenTruncated None (Some 3) (Some [])
   \<and> hasResultBeenTruncated (Some 0) (Some 3) (Some [])
   \<and> \<not> hasResultBeenTruncated None (Some 3) None"
  using hasResultBeenTruncated_decision [of "Some 6" "Some 3" "Some []"]
        hasResultBeenTruncated_decision [of "Some 3" "Some 3" "Some []"]
        hasResultBeenTruncated_decision [of "Some 6" "Some 3" None]
        hasResultBeenTruncated_decision [of None "Some 3" "Some []"]
        hasResultBeenTruncated_decision [of "Some 0" "Some 3" "Some []"]
        hasResultBeenTruncated_decision [of None "Some 3" None]
  by (simp add: nullish_def)

section \<open>Placeholders of the tracker\<close>

lemma digit_char_inj:
  assumes a: "a < 10" and b: "b < 10" and e: "digit_char a = digit_char b"
  shows "a = b"
proof -
  have d: "distinct ''0123456789''" by simp
  have l: "length ''0123456789'' = 10" by simp
  from e have "''0123456789'' ! a = ''0123456789'' ! b" by (simp only: digit_char_def)
  with d a b l show "a = b" by (simp only: nth_eq_iff_index_eq)
qed

lemma string_of_nat_nonempty: "string_of_nat n \<noteq> []"
  by (subst string_of_nat.simps) simp

lemma last_string_of_nat: "last (string_of_nat n) = digit_char (n mod 10)"
  by (subst string_of_nat.simps) simp

lemma mod10_Suc_neq: "n mod 10 \<noteq> Suc n mod (10::nat)"
  by (simp add: mod_Suc)

text \<open>The decimal texts of \<open>n\<close> and \<open>n + 1\<close> end in different digits, whatever precedes them.\<close>

lemma string_of_nat_Suc_neq: "pre @ string_of_nat n \<noteq> pre' @ string_of_nat (Suc n)"
proof
  assume "pre @ string_of_nat n = pre' @ string_of_nat (Suc n)"
  then have "last (pre @ string_of_nat n) = last (pre' @ string_of_nat (Suc n))" by simp
  then have "digit_char (n mod 10) = digit_char (Suc n mod 10)"
    by (simp add: string_of_nat_nonempty last_string_of_nat)
  then have "n mod 10 = Suc n mod 10" by (intro digit_char_inj) simp_all
  then show False by (simp only: mod10_Suc_neq)
qed

lemma getValue_fst:
  "fst (getValue v alias t) = '':'' @ nullish alias ''v_sub'' @ string_of_nat (valueCounter t)"
  by (simp add: getValue_def Let_def)

lemma getValue_counter: "valueCounter (snd (getValue v alias t)) = Suc (valueCounter t)"
  by (simp add: getValue_def Let_def)

lemma getValue_values:
  "attributeValues (snd (getValue v alias t))
     = AList.update (fst (getValue v alias t)) (convertValue v) (attributeValues t)"
  by (simp add: getValue_def Let_def)

lemma getValue_names: "attributeNames (snd (getValue v alias t)) = attributeNames t"
  by (simp add: getValue_def Let_def)

lemma get_Literal:
  "get (Literal v) alias t = (Inr (fst (getValue v alias t)), snd (getValue v alias t))"
  by (simp add: split_beta)

lemma getName_fst: "fst (getName n alias t) = ''#'' @ nullish alias n"
  by (simp add: getName_def Let_def)

lemma getName_names:
  "attributeNames (snd (getName n alias t))
     = AList.update (fst (getName n alias t)) n (attributeNames t)"
  by (simp add: getName_def Let_def)

lemma getName_counter: "valueCounter (snd (getName n alias t)) = valueCounter t"
  by (simp add: getName_def Let_def)

lemma getName_values: "attributeValues (snd (getName n alias t)) = attributeValues t"
  by (simp add: getName_def Let_def)

lemma get_AttributeName:
  "get (AttributeName n) alias t = (Inr (fst (getName n alias t)), snd (getName n alias t))"
  by (simp add: split_beta)

text \<open>
  Claim C9. A fresh tracker counts from 0. Two resolutions of literals, one after the
  other on the same tracker, with any aliases and also for equal literals, give the
  placeholders numbered with the counter and the counter plus one; the two placeholders
  differ, each resolution advances the counter by exactly one, and both placeholders are
  bound in the values afterwards, each to its own converted literal.
\<close>

theorem value_placeholders_consecutive:
  assumes r1: "get (Literal v1) a1 t = (r1, t1)"
    and r2: "get (Literal v2) a2 t1 = (r2, t2)"
  shows "valueCounter new_AttributeTracker = 0
     \<and> r1 = Inr ('':'' @ nullish a1 ''v_sub'' @ string_of_nat (valueCounter t))
     \<and> r2 = Inr ('':'' @ nullish a2 ''v_sub'' @ string_of_nat (valueCounter t + 1))
     \<and> r1 \<noteq> r2
     \<and> valueCounter t1 = valueCounter t + 1
     \<and> valueCounter t2 = valueCounter t + 2
     \<and> map_of (attributeValues t2)
          ('':'' @ nullish a1 ''v_sub'' @ string_of_nat (valueCounter t)) = Some (convertValue v1)
     \<and> map_of (attributeValues t2)
          ('':'' @ nullish a2 ''v_sub'' @ string_of_nat (valueCounter t + 1)) = Some (convertValue v2)"
proof -
  let ?p1 = "'':'' @ nullish a1 ''v_sub'' @ string_of_nat (valueCounter t)"
  let ?p2 = "'':'' @ nullish a2 ''v_sub'' @ string_of_nat (valueCounter t + 1)"
  from r1 [unfolded get_Literal]
  have t1: "t1 = snd (getValue v1 a1 t)" and e1: "r1 = Inr ?p1"
    by (simp_all add: getValue_fst)
  from t1 have c1: "valueCounter t1 = valueCounter t + 1" by (simp add: getValue_counter)
  from r2 [unfolded get_Literal]
  have t2: "t2 = snd (getValue v2 a2 t1)" and e2: "r2 = Inr ?p2"
    by (simp_all add: getValue_fst c1)
  from t2 c1 have c2: "valueCounter t2 = valueCounter t + 2" by (simp add: getValue_counter)
  have ne: "?p1 \<noteq> ?p2"
    using string_of_nat_Suc_neq [of "'':'' @ nullish a1 ''v_sub''" "valueCounter t"
                                    "'':'' @ nullish a2 ''v_sub''"]
    by simp
  have v1: "attributeValues t1 = AList.update ?p1 (convertValue v1) (attributeValues t)"
    by (simp add: t1 getValue_values getValue_fst)
  have v2: "attributeValues t2 = AList.update ?p2 (convertValue v2) (attributeValues t1)"
    by (simp add: t2 getValue_values getValue_fst c1)
  have m2: "map_of (attributeValues t2) ?p2 = Some (convertValue v2)"
    by (simp only: v2 update_conv') simp
  have m1: "map_of (attributeValues t2) ?p1 = Some (convertValue v1)"
    using ne by (simp only: v2 v1 update_conv') simp
  show ?thesis
    using e1 e2 ne c1 c2 m1 m2 by (simp add: new_AttributeTracker_def)
qed

theorem value_placeholders_consecutive_witness:
  "get (Literal (LStr ''x'')) None new_AttributeTracker
     = (Inr '':v_sub0'',
        \<lparr>valueCounter = 1, attributeNames = [],
         attributeValues = [('':v_sub0'', VStr ''x'')]\<rparr>)
   \<and> get (Literal (LStr ''x'')) None
         \<lparr>valueCounter = 1, attributeNames = [],
          attributeValues = [('':v_sub0'', VStr ''x'')]\<rparr>
     = (Inr '':v_sub1'',
        \<lparr>valueCounter = 2, attributeNames = [],
         attributeValues = [('':v_sub0'', VStr ''x''), ('':v_sub1'', VStr ''x'')]\<rparr>)
   \<and> (Inr '':v_sub0'' :: error + string) \<noteq> Inr '':v_sub1''"
proof -
  have h1: "get (Literal (LStr ''x'')) None new_AttributeTracker
     = (Inr '':v_sub0'',
        \<lparr>valueCounter = 1, attributeNames = [],
         attributeValues = [('':v_sub0'', VStr ''x'')]\<rparr>)"
    by (simp add: getValue_def new_AttributeTracker_def nullish_def Let_def
                  string_of_nat.simps digit_char_def)
  have h2: "get (Literal (LStr ''x'')) None
         \<lparr>valueCounter = 1, attributeNames = [],
          attributeValues = [('':v_sub0'', VStr ''x'')]\<rparr>
     = (Inr '':v_sub1'',
        \<lparr>valueCounter = 2, attributeNames = [],
         attributeValues = [('':v_sub0'', VStr ''x''), ('':v_sub1'', VStr ''x'')]\<rparr>)"
    by (simp add: getValue_def nullish_def Let_def string_of_nat.simps digit_char_def)
  from value_placeholders_consecutive [OF h1 h2] h1 h2 show ?thesis by blast
qed

text \<open>
  Claim C10. Resolving two different names under one alias returns the same placeholder,
  the alias after \<^verbatim>\<open>#\<close>, both times and without an error. After the first call the
  placeholder is bound to the first name; after the second it is bound to the second name
  and no longer to the first, and no placeholder has been added for it.
\<close>

theorem shared_alias_overwrites:
  assumes r1: "get (A n1) (Some a) t = (r1, t1)"
    and r2: "get (A n2) (Some a) t1 = (r2, t2)"
    and ne: "n1 \<noteq> n2"
  shows "r1 = Inr (''#'' @ a) \<and> r2 = Inr (''#'' @ a)
     \<and> map_of (attributeNames t1) (''#'' @ a) = Some n1
     \<and> map_of (attributeNames t2) (''#'' @ a) = Some n2
     \<and> map_of (attributeNames t2) (''#'' @ a) \<noteq> Some n1
     \<and> map fst (attributeNames t2) = map fst (attributeNames t1)"
proof -
  from r1 [unfolded A_def get_AttributeName]
  have t1: "t1 = snd (getName n1 (Some a) t)" and e1: "r1 = Inr (''#'' @ a)"
    by (simp_all add: getName_fst nullish_def)
  from r2 [unfolded A_def get_AttributeName]
  have t2: "t2 = snd (getName n2 (Some a) t1)" and e2: "r2 = Inr (''#'' @ a)"
    by (simp_all add: getName_fst nullish_def)
  have n1: "attributeNames t1 = AList.update (''#'' @ a) n1 (attributeNames t)"
    by (simp add: t1 getName_names getName_fst nullish_def)
  have n2: "attributeNames t2 = AList.update (''#'' @ a) n2 (attributeNames t1)"
    by (simp add: t2 getName_names getName_fst nullish_def)
  have m1: "map_of (attributeNames t1) (''#'' @ a) = Some n1"
    by (simp only: n1 update_conv') simp
  have m2: "map_of (attributeNames t2) (''#'' @ a) = Some n2"
    by (simp only: n2 update_conv') simp
  have k: "map fst (attributeNames t2) = map fst (attributeNames t1)"
    by (simp add: n2 n1 update_keys)
  show ?thesis using e1 e2 m1 m2 k ne by simp
qed

theorem shared_alias_overwrites_witness:
  "get (A ''createdAt'') (Some ''d'') new_AttributeTracker
     = (Inr ''#d'',
        \<lparr>valueCounter = 0, attributeNames = [(''#d'', ''createdAt'')], attributeValues = []\<rparr>)
   \<and> get (A ''updatedAt'') (Some ''d'')
         \<lparr>valueCounter = 0, attributeNames = [(''#d'', ''createdAt'')], attributeValues = []\<rparr>
     = (Inr ''#d'',
        \<lparr>valueCounter = 0, attributeNames = [(''#d'', ''updatedAt'')], attributeValues = []\<rparr>)
   \<and> map_of [(''#d'', ''updatedAt'')] ''#d'' \<noteq> Some ''createdAt''"
proof -
  have h1: "get (A ''createdAt'') (Some ''d'') new_AttributeTracker
     = (Inr ''#d'',
        \<lparr>valueCounter = 0, attributeNames = [(''#d'', ''createdAt'')], attributeValues = []\<rparr>)"
    by (simp add: A_def getName_def new_AttributeTracker_def nullish_def Let_def)
  have h2: "get (A ''updatedAt'') (Some ''d'')
         \<lparr>valueCounter = 0, attributeNames = [(''#d'', ''createdAt'')], attributeValues = []\<rparr>
     = (Inr ''#d'',
        \<lparr>valueCounter = 0, attributeNames = [(''#d'', ''updatedAt'')], attributeValues = []\<rparr>)"
    by (simp add: A_def getName_def nullish_def Let_def)
  have h3: "''createdAt'' \<noteq> ''updatedAt''" by simp
  from shared_alias_overwrites [OF h1 h2 h3] h1 h2 show ?thesis by simp
qed

section \<open>Boolean combinators\<close>

lemma join_parenthesized:
  "ss \<noteq> [] \<Longrightarrow> ''('' @ join ('')'' @ w @ ''('') ss @ '')'' = join w (map parenthesized ss)"
  by (induction ss rule: induct_list012) (simp_all add: parenthesized_def)

lemma build_all_length: "build_all cs t = (Inr ss, t') \<Longrightarrow> length ss = length cs"
proof (induction cs arbitrary: t ss t')
  case Nil
  then show ?case by simp
next
  case (Cons c cs)
  then show ?case
    by (auto split: prod.splits sum.splits)
qed

lemma compiled_conditions_joined:
  assumes n: "2 \<le> length cs" and b: "build_all cs t = (Inr ss, t')"
  shows "build (And cs) t = (Inr (join '' AND '' (map parenthesized ss)), t')"
    and "build (Or cs) t = (Inr (join '' OR '' (map parenthesized ss)), t')"
proof -
  from b have l: "length ss = length cs" by (rule build_all_length)
  with n have ne: "ss \<noteq> []" by auto
  from join_parenthesized [OF ne, of "'' AND ''"] n b
  show "build (And cs) t = (Inr (join '' AND '' (map parenthesized ss)), t')"
    by simp
  from join_parenthesized [OF ne, of "'' OR ''"] n b
  show "build (Or cs) t = (Inr (join '' OR '' (map parenthesized ss)), t')"
    by simp
qed

lemma tracker_before_Cons:
  "tracker_before (c # cs) t (Suc i) = tracker_before cs (snd (build c t)) i"
  by (induction i) simp_all

lemma compiled_Cons:
  "compiled (c # cs) t 0 = fst (build c t)"
  "compiled (c # cs) t (Suc i) = compiled cs (snd (build c t)) i"
  by (simp_all add: compiled_def tracker_before_Cons del: tracker_before.simps(2))

lemma map_upt_Suc_shift: "map f [0..<Suc n] = f 0 # map (\<lambda>i. f (Suc i)) [0..<n]"
  by (simp only: upt_conv_Cons [of 0 "Suc n", OF zero_less_Suc] map_Suc_upt [symmetric]
                 list.map map_map o_def)

lemma build_all_in_turn:
  assumes "\<forall>i < length cs. \<not> isl (compiled cs t i)"
  shows "build_all cs t
     = (Inr (map (\<lambda>i. projr (compiled cs t i)) [0..<length cs]),
        tracker_before cs t (length cs))"
  using assms
proof (induction cs arbitrary: t)
  case Nil
  show ?case by simp
next
  case (Cons c cs)
  from Cons.prems have "\<not> isl (compiled (c # cs) t 0)" by blast
  then obtain s t1 where b: "build c t = (Inr s, t1)"
    by (cases "build c t"; cases "fst (build c t)") (simp_all add: compiled_Cons)
  then have t1: "snd (build c t) = t1" by simp
  have "\<forall>i < length cs. \<not> isl (compiled cs (snd (build c t)) i)"
  proof (intro allI impI)
    fix i assume "i < length cs"
    then have "Suc i < length (c # cs)" by simp
    with Cons.prems have "\<not> isl (compiled (c # cs) t (Suc i))" by blast
    then show "\<not> isl (compiled cs (snd (build c t)) i)" by (simp add: compiled_Cons)
  qed
  from Cons.IH [OF this] b show ?case
    by (simp add: map_upt_Suc_shift compiled_Cons tracker_before_Cons t1
             del: upt_Suc tracker_before.simps(2))
qed

lemma build_all_first_failure:
  assumes "k < length cs" and "\<forall>i < k. \<not> isl (compiled cs t i)" and "compiled cs t k = Inl e"
  shows "build_all cs t = (Inl e, tracker_before cs t (Suc k))"
  using assms
proof (induction cs arbitrary: t k)
  case Nil
  then show ?case by simp
next
  case (Cons c cs)
  show ?case
  proof (cases k)
    case 0
    with Cons.prems(3) have "fst (build c t) = Inl e" by (simp add: compiled_Cons)
    then obtain t1 where "build c t = (Inl e, t1)" by (cases "build c t") simp
    with 0 show ?thesis by simp
  next
    case (Suc j)
    with Cons.prems(2) have "\<not> isl (compiled (c # cs) t 0)" by blast
    then obtain s t1 where b: "build c t = (Inr s, t1)"
      by (cases "build c t"; cases "fst (build c t)") (simp_all add: compiled_Cons)
    then have t1: "snd (build c t) = t1" by simp
    from Cons.prems(1) Suc have j: "j < length cs" by simp
    have a: "\<forall>i < j. \<not> isl (compiled cs (snd (build c t)) i)"
    proof (intro allI impI)
      fix i assume "i < j"
      with Suc have "Suc i < k" by simp
      with Cons.prems(2) have "\<not> isl (compiled (c # cs) t (Suc i))" by blast
      then show "\<not> isl (compiled cs (snd (build c t)) i)" by (simp add: compiled_Cons)
    qed
    from Cons.prems(3) Suc have f: "compiled cs (snd (build c t)) j = Inl e"
      by (simp add: compiled_Cons)
    from Cons.IH [OF j a f] b Suc show ?thesis
      by (simp add: tracker_before_Cons t1 del: tracker_before.simps(2))
  qed
qed


text \<open>
  Claim C7, as amended. Compiling an \<^verbatim>\<open>And\<close> or an \<^verbatim>\<open>Or\<close> of 0 or 1 sub-conditions
  throws the \<^verbatim>\<open>Error\<close> that names the node and the count, and leaves the tracker alone;
  it is an error of the compiler, thrown before any store call and of another type than a
  rejection by the store.
  With two or more sub-conditions the sub-conditions are compiled from left to right, the
  first on the given tracker and each other on the tracker as the one before left it.
  When every one of them compiles, the result is their compiled texts in order, each in
  parentheses, joined by \<^verbatim>\<open> AND \<close> (respectively \<^verbatim>\<open> OR \<close>), and the tracker is as the
  last sub-condition left it. When one of them throws and those before it compile, the
  result is that sub-condition's error, the tracker is as that sub-condition left it, and
  the sub-conditions after it are not compiled.
\<close>

theorem And_Or_build:
  "(length cs < 2 \<longrightarrow>
      build (And cs) t
        = (Inl (Error (''And condition must have at least 2 operands but got: ''
                       @ string_of_nat (length cs))), t)
      \<and> build (Or cs) t
        = (Inl (Error (''Or condition must have at least 2 operands but got: ''
                       @ string_of_nat (length cs))), t))
   \<and> (2 \<le> length cs \<and> (\<forall>i < length cs. \<not> isl (compiled cs t i)) \<longrightarrow>
        build (And cs) t
          = (Inr (join '' AND ''
                    (map (\<lambda>i. parenthesized (projr (compiled cs t i))) [0..<length cs])),
             tracker_before cs t (length cs))
        \<and> build (Or cs) t
          = (Inr (join '' OR ''
                    (map (\<lambda>i. parenthesized (projr (compiled cs t i))) [0..<length cs])),
             tracker_before cs t (length cs)))
   \<and> (2 \<le> length cs \<and> k < length cs \<and> (\<forall>i < k. \<not> isl (compiled cs t i))
        \<and> compiled cs t k = Inl e \<longrightarrow>
        build (And cs) t = (Inl e, tracker_before cs t (Suc k))
        \<and> build (Or cs) t = (Inl e, tracker_before cs t (Suc k)))"
proof -
  have small: "length cs < 2 \<Longrightarrow>
      build (And cs) t
        = (Inl (Error (''And condition must have at least 2 operands but got: ''
                       @ string_of_nat (length cs))), t)
      \<and> build (Or cs) t
        = (Inl (Error (''Or condition must have at least 2 operands but got: ''
                       @ string_of_nat (length cs))), t)"
    by simp
  have ok: "build (And cs) t
          = (Inr (join '' AND ''
                    (map (\<lambda>i. parenthesized (projr (compiled cs t i))) [0..<length cs])),
             tracker_before cs t (length cs))
        \<and> build (Or cs) t
          = (Inr (join '' OR ''
                    (map (\<lambda>i. parenthesized (projr (compiled cs t i))) [0..<length cs])),
             tracker_before cs t (length cs))"
    if n: "2 \<le> length cs" and a: "\<forall>i < length cs. \<not> isl (compiled cs t i)"
  proof -
    have m: "map parenthesized (map (\<lambda>i. projr (compiled cs t i)) [0..<length cs])
               = map (\<lambda>i. parenthesized (projr (compiled cs t i))) [0..<length cs]"
      by (simp add: o_def)
    from compiled_conditions_joined [OF n build_all_in_turn [OF a]] show ?thesis
      by (simp only: m)
  qed
  have fails: "build (And cs) t = (Inl e, tracker_before cs t (Suc k))
        \<and> build (Or cs) t = (Inl e, tracker_before cs t (Suc k))"
    if n: "2 \<le> length cs" and k: "k < length cs"
      and a: "\<forall>i < k. \<not> isl (compiled cs t i)" and f: "compiled cs t k = Inl e"
    using build_all_first_failure [OF k a f] n
    by (simp del: tracker_before.simps(2))
  from small ok fails show ?thesis by blast
qed

theorem And_Or_build_witness:
  "build (And []) new_AttributeTracker
     = (Inl (Error ''And condition must have at least 2 operands but got: 0''), new_AttributeTracker)
   \<and> build (Or [Exists ''a'']) new_AttributeTracker
     = (Inl (Error ''Or condition must have at least 2 operands but got: 1''), new_AttributeTracker)
   \<and> build (And [Exists ''a'', Exists ''b'']) new_AttributeTracker
     = (Inr ''(attribute_exists(#a)) AND (attribute_exists(#b))'',
        \<lparr>valueCounter = 0, attributeNames = [(''#a'', ''a''), (''#b'', ''b'')],
         attributeValues = []\<rparr>)
   \<and> build (Or [Exists ''a'', Exists ''b'']) new_AttributeTracker
     = (Inr ''(attribute_exists(#a)) OR (attribute_exists(#b))'',
        \<lparr>valueCounter = 0, attributeNames = [(''#a'', ''a''), (''#b'', ''b'')],
         attributeValues = []\<rparr>)
   \<and> build (And [Exists ''a'', Or [], Exists ''b'']) new_AttributeTracker
     = (Inl (Error ''Or condition must have at least 2 operands but got: 0''),
        \<lparr>valueCounter = 0, attributeNames = [(''#a'', ''a'')], attributeValues = []\<rparr>)"
proof -
  let ?ab = "[Exists ''a'', Exists ''b'']"
  let ?bad = "[Exists ''a'', Or [], Exists ''b'']"
  let ?n = new_AttributeTracker
  let ?ta = "\<lparr>valueCounter = 0, attributeNames = [(''#a'', ''a'')], attributeValues = []\<rparr>"
  let ?tab = "\<lparr>valueCounter = 0, attributeNames = [(''#a'', ''a''), (''#b'', ''b'')],
               attributeValues = []\<rparr>"
  have s0: "string_of_nat 0 = ''0''" and s1: "string_of_nat (Suc 0) = ''1''"
    by (simp_all add: string_of_nat.simps digit_char_def)
  have a: "build (Exists ''a'') ?n = (Inr ''attribute_exists(#a)'', ?ta)"
    by (simp add: escapePath_def getName_def nullish_def Let_def new_AttributeTracker_def)
  have b: "build (Exists ''b'') ?ta = (Inr ''attribute_exists(#b)'', ?tab)"
    by (simp add: escapePath_def getName_def nullish_def Let_def)
  have o: "build (Or []) ?ta
             = (Inl (Error ''Or condition must have at least 2 operands but got: 0''), ?ta)"
    by (simp add: s0)
  have t1: "tracker_before ?ab ?n (Suc 0) = ?ta" "tracker_before ?bad ?n (Suc 0) = ?ta"
    by (simp_all add: a del: build.simps)
  have t2: "tracker_before ?ab ?n (Suc (Suc 0)) = ?tab" "tracker_before ?bad ?n (Suc (Suc 0)) = ?ta"
    by (simp_all add: a b o del: build.simps)
  have c: "compiled ?ab ?n 0 = Inr ''attribute_exists(#a)''"
          "compiled ?ab ?n (Suc 0) = Inr ''attribute_exists(#b)''"
          "compiled ?bad ?n 0 = Inr ''attribute_exists(#a)''"
          "compiled ?bad ?n (Suc 0)
             = Inl (Error ''Or condition must have at least 2 operands but got: 0'')"
    by (simp_all add: compiled_def a b o del: build.simps)
  have h1: "2 \<le> length ?ab \<and> (\<forall>i < length ?ab. \<not> isl (compiled ?ab ?n i))"
    by (simp add: less_Suc_eq c)
  have h2: "2 \<le> length ?bad \<and> Suc 0 < length ?bad
              \<and> (\<forall>i < Suc 0. \<not> isl (compiled ?bad ?n i))
              \<and> compiled ?bad ?n (Suc 0)
                  = Inl (Error ''Or condition must have at least 2 operands but got: 0'')"
    by (simp add: c)
  have u: "[0..<length ?ab] = [0, Suc 0]" by (simp add: upt_rec)
  from And_Or_build [of "[]" ?n]
  have r0: "build (And []) ?n
     = (Inl (Error ''And condition must have at least 2 operands but got: 0''), ?n)"
    by (simp add: s0)
  from And_Or_build [of "[Exists ''a'']" ?n]
  have r1: "build (Or [Exists ''a'']) ?n
     = (Inl (Error ''Or condition must have at least 2 operands but got: 1''), ?n)"
    by (simp add: s1)
  from And_Or_build [of ?ab ?n] h1
  have r2: "build (And ?ab) ?n = (Inr ''(attribute_exists(#a)) AND (attribute_exists(#b))'', ?tab)
          \<and> build (Or ?ab) ?n = (Inr ''(attribute_exists(#a)) OR (attribute_exists(#b))'', ?tab)"
    by (simp only: u) (simp add: c t2 parenthesized_def del: tracker_before.simps build.simps)
  from And_Or_build [of ?bad ?n "Suc 0"
         "Error ''Or condition must have at least 2 operands but got: 0''"] h2
  have r3: "build (And ?bad) ?n
     = (Inl (Error ''Or condition must have at least 2 operands but got: 0''), ?ta)"
    by (simp add: t2 del: tracker_before.simps build.simps)
  from r0 r1 r2 r3 show ?thesis by simp
qed

text \<open>
  Claim C7 as stated fails: an \<^verbatim>\<open>And\<close> (or \<^verbatim>\<open>Or\<close>) of two sub-conditions does not compile
  when a sub-condition is itself an \<^verbatim>\<open>And\<close> (or \<^verbatim>\<open>Or\<close>) of none.
\<close>

theorem And_two_conditions_fails:
  "2 \<le> length [And [], And []]
   \<and> fst (build (And [And [], And []]) new_AttributeTracker)
     = Inl (Error ''And condition must have at least 2 operands but got: 0'')
   \<and> fst (build (Or [Or [], Or []]) new_AttributeTracker)
     = Inl (Error ''Or condition must have at least 2 operands but got: 0'')"
  by (simp add: string_of_nat.simps digit_char_def)

section \<open>The projection expression\<close>

lemma remdups_drop_earlier: "x \<in> set zs \<Longrightarrow> remdups (ys @ x # zs) = remdups (ys @ zs)"
  by (induction ys) auto

lemma first_occurrences_snoc:
  "first_occurrences (xs @ [x]) = set_add x (first_occurrences xs)"
  by (simp add: first_occurrences_def set_add_def)

lemma first_occurrences_set_add:
  "first_occurrences (set_add x xs @ ys) = first_occurrences (xs @ x # ys)"
  by (simp add: first_occurrences_def set_add_def remdups_drop_earlier)

lemma first_occurrences_distinct: "distinct xs \<Longrightarrow> first_occurrences xs = xs"
  by (simp add: first_occurrences_def distinct_remdups_id)

lemma distinct_first_occurrences: "distinct (first_occurrences xs)"
  by (simp add: first_occurrences_def)

lemma set_first_occurrences: "set (first_occurrences xs) = set xs"
  by (simp add: first_occurrences_def)

lemma set_add_distinct: "distinct xs \<Longrightarrow> distinct (set_add x xs)"
  by (simp add: set_add_def)

lemma add_projection_fields_result:
  "distinct acc \<Longrightarrow> add_projection_fields fs acc t = (ps, t') \<Longrightarrow>
     ps = first_occurrences (acc @ map placeholder fs)"
proof (induction fs arbitrary: acc t)
  case Nil
  then show ?case by (simp add: first_occurrences_distinct)
next
  case (Cons f fs)
  from Cons.prems(2)
  have r: "add_projection_fields fs (set_add (placeholder f) acc) (snd (getName f None t)) = (ps, t')"
    by (simp add: split_beta getName_fst nullish_def placeholder_def)
  from Cons.IH [OF set_add_distinct [OF Cons.prems(1)] r]
  show ?case by (simp add: first_occurrences_set_add)
qed

text \<open>
  Claim C6. With a key configuration staged, the projection is the comma-joined list of
  the placeholders of the requested fields followed by the partition key and the sort key
  (if any), every placeholder once, where it first occurs. So no placeholder is repeated,
  also when a requested field is a key field, and the placeholders are exactly those of
  the requested fields and the key fields. \<^verbatim>\<open>buildFields\<close> stores that text in the request.
\<close>

theorem projection_includes_keys_once:
  assumes "projection_placeholders (Some k) fs t = (ps, t')"
  shows "ps = first_occurrences (map placeholder (fs @ key_fields k))
     \<and> distinct ps
     \<and> set ps = placeholder ` (set fs \<union> set (key_fields k))
     \<and> placeholder (partitionKeyName k) \<in> set ps
     \<and> generateProjectionExpression (Some k) fs t = (join '','' ps, t')
     \<and> buildFields (Some k) q (Some fs) t
         = (q\<lparr>ProjectionExpression := Some (join '','' ps)\<rparr>, t')"
proof -
  obtain ps0 t0 where a: "add_projection_fields fs [] t = (ps0, t0)"
    by (cases "add_projection_fields fs [] t")
  from add_projection_fields_result [OF _ a]
  have p0: "ps0 = first_occurrences (map placeholder fs)" by simp
  have pk: "fst (getName (partitionKeyName k) None t0) = placeholder (partitionKeyName k)"
    by (simp add: getName_fst nullish_def placeholder_def)
  have sk: "fst (getName (the (sortKeyName k)) None t1) = placeholder (the (sortKeyName k))" for t1
    by (simp add: getName_fst nullish_def placeholder_def)
  from assms a pk sk
  have "ps = (if truthy (sortKeyName k)
              then set_add (placeholder (the (sortKeyName k)))
                     (set_add (placeholder (partitionKeyName k)) ps0)
              else set_add (placeholder (partitionKeyName k)) ps0)"
    by (auto simp: projection_placeholders_def split_beta split: if_splits)
  then have ps: "ps = first_occurrences (map placeholder (fs @ key_fields k))"
    by (simp add: p0 key_fields_def first_occurrences_snoc [symmetric])
  have g: "generateProjectionExpression (Some k) fs t = (join '','' ps, t')"
    using assms by (simp add: generateProjectionExpression_def)
  have m: "placeholder (partitionKeyName k) \<in> set ps"
    by (simp add: ps set_first_occurrences key_fields_def)
  have s: "set ps = placeholder ` (set fs \<union> set (key_fields k))"
    by (simp add: ps set_first_occurrences image_Un)
  have b: "buildFields (Some k) q (Some fs) t
         = (q\<lparr>ProjectionExpression := Some (join '','' ps)\<rparr>, t')"
    by (simp add: buildFields_def g)
  from ps g m s b distinct_first_occurrences [of "map placeholder (fs @ key_fields k)"]
  show ?thesis by simp
qed

theorem projection_includes_keys_once_witness:
  "projection_placeholders
      (Some \<lparr>partitionKeyName = ''pk'', partitionKeyValue = Some ''v'', sortKeyName = Some ''sk'',
             sortKeyValue = None, sortKeyCondition = None\<rparr>)
      [''a'', ''b''] new_AttributeTracker
     = ([''#a'', ''#b'', ''#pk'', ''#sk''],
        \<lparr>valueCounter = 0,
         attributeNames = [(''#a'', ''a''), (''#b'', ''b''), (''#pk'', ''pk''), (''#sk'', ''sk'')],
         attributeValues = []\<rparr>)
   \<and> fst (generateProjectionExpression
      (Some \<lparr>partitionKeyName = ''pk'', partitionKeyValue = Some ''v'', sortKeyName = Some ''sk'',
             sortKeyValue = None, sortKeyCondition = None\<rparr>)
      [''a'', ''b''] new_AttributeTracker) = ''#a,#b,#pk,#sk''
   \<and> fst (generateProjectionExpression
      (Some \<lparr>partitionKeyName = ''pk'', partitionKeyValue = Some ''v'', sortKeyName = Some ''sk'',
             sortKeyValue = None, sortKeyCondition = None\<rparr>)
      [''sk'', ''a'', ''pk'', ''a''] new_AttributeTracker) = ''#sk,#a,#pk''"
proof -
  let ?k = "\<lparr>partitionKeyName = ''pk'', partitionKeyValue = Some ''v'', sortKeyName = Some ''sk'',
             sortKeyValue = None, sortKeyCondition = None\<rparr>"
  have h: "projection_placeholders (Some ?k) [''a'', ''b''] new_AttributeTracker
     = ([''#a'', ''#b'', ''#pk'', ''#sk''],
        \<lparr>valueCounter = 0,
         attributeNames = [(''#a'', ''a''), (''#b'', ''b''), (''#pk'', ''pk''), (''#sk'', ''sk'')],
         attributeValues = []\<rparr>)"
    by (simp add: projection_placeholders_def getName_def nullish_def Let_def set_add_def
                  truthy_def new_AttributeTracker_def)
  have h2: "fst (generateProjectionExpression (Some ?k) [''sk'', ''a'', ''pk'', ''a'']
                   new_AttributeTracker) = ''#sk,#a,#pk''"
    by (simp add: generateProjectionExpression_def projection_placeholders_def getName_def
                  nullish_def Let_def set_add_def truthy_def new_AttributeTracker_def)
  from projection_includes_keys_once [OF h] h h2 show ?thesis by simp
qed

section \<open>The simple filter\<close>

lemma length_at_least_two: "xs \<noteq> [] \<Longrightarrow> length xs \<noteq> 1 \<Longrightarrow> 2 \<le> length xs"
  by (cases xs) (simp_all add: Suc_le_eq)

lemma build_equality:
  "\<exists>t'. build (Comparison (A f) EQ (Literal v)) t = (Inr (spec_equality f (valueCounter t)), t')
        \<and> valueCounter t' = Suc (valueCounter t)"
  by (simp add: A_def split_beta getName_fst getValue_fst getName_counter getValue_counter
                nullish_def spec_equality_def placeholder_def)

lemma build_all_equalities:
  "\<exists>t'. build_all (map (\<lambda>v. Comparison (A f) EQ (Literal v)) vs) t
           = (Inr (spec_equalities f (length vs) (valueCounter t)), t')
        \<and> valueCounter t' = valueCounter t + length vs"
proof (induction vs arbitrary: t)
  case Nil
  show ?case by simp
next
  case (Cons v vs)
  from build_equality [of f v t] obtain t1 where
    b: "build (Comparison (A f) EQ (Literal v)) t = (Inr (spec_equality f (valueCounter t)), t1)"
    and c: "valueCounter t1 = Suc (valueCounter t)" by blast
  from Cons.IH [of t1] obtain t2 where
    r: "build_all (map (\<lambda>v. Comparison (A f) EQ (Literal v)) vs) t1
          = (Inr (spec_equalities f (length vs) (valueCounter t1)), t2)"
    and c2: "valueCounter t2 = valueCounter t1 + length vs" by blast
  from b c r c2 show ?case by simp
qed

lemma build_field_condition:
  assumes "vs \<noteq> []"
  shows "\<exists>t'. build (field_condition (f, vs)) t
           = (Inr (spec_field_text f (length vs) (valueCounter t)), t')
        \<and> valueCounter t' = valueCounter t + length vs"
proof (cases "length vs = 1")
  case True
  then obtain v where vs: "vs = [v]" by (cases vs) auto
  from build_equality [of f v t] show ?thesis
    by (auto simp: vs field_condition_def spec_field_text_def)
next
  case False
  with assms have n: "2 \<le> length (map (\<lambda>v. Comparison (A f) EQ (Literal v)) vs)"
    by (simp add: length_at_least_two)
  from build_all_equalities [of f vs t] obtain t' where
    r: "build_all (map (\<lambda>v. Comparison (A f) EQ (Literal v)) vs) t
          = (Inr (spec_equalities f (length vs) (valueCounter t)), t')"
    and c: "valueCounter t' = valueCounter t + length vs" by blast
  from compiled_conditions_joined(2) [OF n r] c False show ?thesis
    by (simp add: field_condition_def spec_field_text_def)
qed

lemma build_all_field_conditions:
  assumes "\<forall>e \<in> set filters. snd e \<noteq> []"
  shows "\<exists>t'. build_all (map field_condition filters) t
           = (Inr (spec_field_texts filters (valueCounter t)), t')
        \<and> valueCounter t' = valueCounter t + value_count filters"
  using assms
proof (induction filters arbitrary: t)
  case Nil
  show ?case by (simp add: value_count_def)
next
  case (Cons e filters)
  obtain f vs where e: "e = (f, vs)" by (cases e)
  with Cons.prems have "vs \<noteq> []" by simp
  from build_field_condition [OF this, of f t] obtain t1 where
    b: "build (field_condition (f, vs)) t = (Inr (spec_field_text f (length vs) (valueCounter t)), t1)"
    and c: "valueCounter t1 = valueCounter t + length vs" by blast
  from Cons.prems have "\<forall>e \<in> set filters. snd e \<noteq> []" by simp
  from Cons.IH [OF this, of t1] obtain t2 where
    r: "build_all (map field_condition filters) t1
          = (Inr (spec_field_texts filters (valueCounter t1)), t2)"
    and c2: "valueCounter t2 = valueCounter t1 + value_count filters" by blast
  from b c r c2 show ?case by (simp add: e value_count_def)
qed

lemma length_spec_field_texts: "length (spec_field_texts filters n) = length filters"
  by (induction filters n rule: spec_field_texts.induct) simp_all

lemma build_generateFilterExpression:
  assumes ne: "filters \<noteq> []" and vals: "\<forall>e \<in> set filters. snd e \<noteq> []"
  shows "\<exists>t'. build (generateFilterExpression filters) t
           = (Inr (spec_filter_text filters (valueCounter t)), t')
        \<and> valueCounter t' = valueCounter t + value_count filters"
proof (cases "length filters = 1")
  case True
  then obtain f vs where fs: "filters = [(f, vs)]" by (cases filters) auto
  with vals have "vs \<noteq> []" by simp
  from build_field_condition [OF this, of f t] show ?thesis
    by (simp add: fs generateFilterExpression_def spec_filter_text_def value_count_def)
next
  case False
  with ne have n: "2 \<le> length (map field_condition filters)"
    by (simp add: length_at_least_two)
  from build_all_field_conditions [OF vals, of t] obtain t' where
    r: "build_all (map field_condition filters) t
          = (Inr (spec_field_texts filters (valueCounter t)), t')"
    and c: "valueCounter t' = valueCounter t + value_count filters" by blast
  from compiled_conditions_joined(1) [OF n r] c False show ?thesis
    by (simp add: generateFilterExpression_def spec_filter_text_def)
qed

lemma buildFilter_simple:
  assumes ne: "filters \<noteq> []" and vals: "\<forall>e \<in> set filters. snd e \<noteq> []"
  shows "\<exists>t'. buildFilter q (Some filters) t
           = (Inr (q\<lparr>FilterExpression := Some (spec_filter_text filters (valueCounter t))\<rparr>), t')
         \<and> valueCounter t' = valueCounter t + value_count filters"
proof -
  from build_generateFilterExpression [OF ne vals, of t] obtain t' where
    r: "build (generateFilterExpression filters) t
          = (Inr (spec_filter_text filters (valueCounter t)), t')"
    and c: "valueCounter t' = valueCounter t + value_count filters" by blast
  from r c ne show ?thesis
    by (simp add: buildFilter_def generateFilterInput_def)
qed



section \<open>The partition key requirement of build\<close>

lemma compile_error_not_missing_keys:
  "fst (get x a t) \<noteq> Inl (Error missing_keys_message)"
  "fst (build c t) \<noteq> Inl (Error missing_keys_message)"
  "fst (get_all xs t) \<noteq> Inl (Error missing_keys_message)"
  "fst (build_all cs t) \<noteq> Inl (Error missing_keys_message)"
proof (induction x a t and c t and xs t and cs t rule: get_build_get_all_build_all.induct)
  case (9 conditions t)
  then show ?case
    by (auto simp: missing_keys_message_def split: prod.splits sum.splits)
next
  case (10 conditions t)
  then show ?case
    by (auto simp: missing_keys_message_def split: prod.splits sum.splits)
qed (fastforce split: prod.splits sum.splits)+

lemma build_not_missing_keys: "build c t \<noteq> (Inl (Error missing_keys_message), t')"
  using compile_error_not_missing_keys(2) [of c t] by auto

lemma buildKeys_not_missing_keys:
  "buildKeys q ks t \<noteq> (Inl (Error missing_keys_message), t')"
  by (auto simp: buildKeys_def Let_def build_not_missing_keys
           split: option.splits prod.splits sum.splits)

lemma buildFilter_not_missing_keys:
  "buildFilter q f t \<noteq> (Inl (Error missing_keys_message), t')"
  by (auto simp: buildFilter_def generateFilterInput_def build_not_missing_keys
           split: option.splits prod.splits sum.splits)

lemma buildFilterExpression_not_missing_keys:
  "buildFilterExpression q fe t \<noteq> (Inl (Error missing_keys_message), t')"
  by (auto simp: buildFilterExpression_def build_not_missing_keys
           split: option.splits prod.splits sum.splits)

lemma build_query_without_keys:
  "\<not> keys_present b \<Longrightarrow>
     QueryBuilder_build Query_op b
       = (Inl (Error missing_keys_message), b\<lparr>tracker := new_AttributeTracker\<rparr>)"
  by (auto simp: QueryBuilder_build_def keys_present_def split: option.splits)

lemma fst_not_missing_keys:
  "fst (buildKeys q ks t) \<noteq> Inl (Error missing_keys_message)"
  "fst (buildFilter q f t) \<noteq> Inl (Error missing_keys_message)"
  "fst (buildFilterExpression q fe t) \<noteq> Inl (Error missing_keys_message)"
  using buildKeys_not_missing_keys [of q ks t "snd (buildKeys q ks t)"]
        buildFilter_not_missing_keys [of q f t "snd (buildFilter q f t)"]
        buildFilterExpression_not_missing_keys [of q fe t "snd (buildFilterExpression q fe t)"]
  by (simp_all add: prod_eq_iff)

lemma build_other_errors:
  assumes "operation = Scan_op \<or> keys_present b"
  shows "fst (QueryBuilder_build operation b) \<noteq> Inl (Error missing_keys_message)"
proof -
  from assms have g: "\<not> (operation = Query_op \<and>
         (case keys b of
            None \<Rightarrow> True
          | Some k \<Rightarrow> partitionKeyName k = [] \<or> partitionKeyValue k = None))"
    by (auto simp: keys_present_def split: option.splits)
  show ?thesis
    unfolding QueryBuilder_build_def Let_def
    by (simp only: g if_False)
       (auto simp: fst_not_missing_keys split_beta split: sum.splits if_splits)
qed

lemma build_scan_without_filter:
  assumes "filter b = None" and "filterExpression b = None"
  shows "\<exists>q. fst (QueryBuilder_build Scan_op b) = Inr q"
  using assms
  by (simp add: QueryBuilder_build_def Let_def buildFilter_def buildFilterExpression_def
                split_beta)


lemma build_scan_simple_filter:
  assumes fe: "filterExpression b = None"
    and fl: "\<forall>fs. filter b = Some fs \<longrightarrow> (\<forall>e \<in> set fs. snd e \<noteq> [])"
  shows "\<exists>q. fst (QueryBuilder_build Scan_op b) = Inr q"
proof -
  let ?q2 = "buildIndex (assign_raw (query b) (rawQueryOptions b)) (index b)"
  have "\<exists>q3 t2. buildFilter ?q2 (filter b) new_AttributeTracker = (Inr q3, t2)"
  proof (cases "filter b")
    case None
    then show ?thesis by (simp add: buildFilter_def)
  next
    case (Some fs)
    show ?thesis
    proof (cases "fs = []")
      case True
      with Some show ?thesis by (simp add: buildFilter_def generateFilterInput_def)
    next
      case False
      from Some fl have "\<forall>e \<in> set fs. snd e \<noteq> []" by simp
      from buildFilter_simple [OF False this, of ?q2 new_AttributeTracker] Some
      show ?thesis by auto
    qed
  qed
  then obtain q3 t2 where "buildFilter ?q2 (filter b) new_AttributeTracker = (Inr q3, t2)"
    by blast
  with fe show ?thesis
    by (simp add: QueryBuilder_build_def Let_def buildFilterExpression_def split_beta)
qed

lemma build_scan_filter_expression:
  assumes fl: "filter b = None"
    and fe: "\<forall>c. filterExpression b = Some c \<longrightarrow>
               (\<exists>s t'. build c new_AttributeTracker = (Inr s, t'))"
  shows "\<exists>q. fst (QueryBuilder_build Scan_op b) = Inr q"
proof (cases "filterExpression b")
  case None
  with fl show ?thesis
    by (simp add: QueryBuilder_build_def Let_def buildFilter_def buildFilterExpression_def
                  split_beta)
next
  case (Some c)
  with fe obtain s t' where "build c new_AttributeTracker = (Inr s, t')" by blast
  with fl Some show ?thesis
    by (simp add: QueryBuilder_build_def Let_def buildFilter_def buildFilterExpression_def
                  split_beta)
qed

text \<open>
  Claim C8, as amended. For every builder state, \<^verbatim>\<open>build("query")\<close> throws the missing-keys
  error, having done nothing but replace the tracker, when the staged key configuration
  lacks a partition key name or value, and never throws that error when both are present.
  \<^verbatim>\<open>build("scan")\<close> never throws that error on any builder state. It returns a request
  when no filter expression is staged and every field of a staged simple filter has at
  least one value, in particular when no filter is staged at all, and when no simple
  filter is staged and the staged filter expression compiles on a fresh tracker.
\<close>

theorem build_partition_key_requirement:
  "(\<not> keys_present b \<longrightarrow>
      QueryBuilder_build Query_op b
        = (Inl (Error missing_keys_message), b\<lparr>tracker := new_AttributeTracker\<rparr>))
   \<and> (keys_present b \<longrightarrow>
        fst (QueryBuilder_build Query_op b) \<noteq> Inl (Error missing_keys_message))
   \<and> fst (QueryBuilder_build Scan_op b) \<noteq> Inl (Error missing_keys_message)
   \<and> (filterExpression b = None
        \<and> (\<forall>fs. filter b = Some fs \<longrightarrow> (\<forall>e \<in> set fs. snd e \<noteq> []))
        \<longrightarrow> (\<exists>q. fst (QueryBuilder_build Scan_op b) = Inr q))
   \<and> (filter b = None
        \<and> (\<forall>c. filterExpression b = Some c \<longrightarrow>
               (\<exists>s t'. build c new_AttributeTracker = (Inr s, t')))
        \<longrightarrow> (\<exists>q. fst (QueryBuilder_build Scan_op b) = Inr q))"
  using build_query_without_keys [of b] build_other_errors [of Query_op b]
        build_other_errors [of Scan_op b] build_scan_simple_filter [of b]
        build_scan_filter_expression [of b]
  by blast

theorem build_partition_key_requirement_witness:
  "QueryBuilder_build Query_op (new_QueryBuilder ''table'')
     = (Inl (Error missing_keys_message), new_QueryBuilder ''table'')
   \<and> fst (QueryBuilder_build Scan_op (new_QueryBuilder ''table''))
     = Inr (query (new_QueryBuilder ''table''))
   \<and> fst (QueryBuilder_build Query_op
        ((new_QueryBuilder ''table'')
           \<lparr>keys := Some \<lparr>partitionKeyName = ''pk'', partitionKeyValue = Some ''v'',
                          sortKeyName = None, sortKeyValue = None, sortKeyCondition = None\<rparr>\<rparr>))
     \<noteq> Inl (Error missing_keys_message)"
proof -
  let ?b = "new_QueryBuilder ''table''"
  let ?k = "(new_QueryBuilder ''table'')
           \<lparr>keys := Some \<lparr>partitionKeyName = ''pk'', partitionKeyValue = Some ''v'',
                          sortKeyName = None, sortKeyValue = None, sortKeyCondition = None\<rparr>\<rparr>"
  have n: "\<not> keys_present ?b" by (simp add: keys_present_def new_QueryBuilder_def)
  have k: "keys_present ?k" by (simp add: keys_present_def new_QueryBuilder_def)
  have t: "?b\<lparr>tracker := new_AttributeTracker\<rparr> = ?b" by (simp add: new_QueryBuilder_def)
  have s: "fst (QueryBuilder_build Scan_op ?b) = Inr (query ?b)"
    by (simp add: QueryBuilder_build_def new_QueryBuilder_def Let_def assign_raw_def
                  buildIndex_def buildFilter_def buildFilterExpression_def buildFields_def
                  buildPagination_def buildExpressionAttributeNamesAndValues_def
                  new_AttributeTracker_def)
  from build_partition_key_requirement [of ?b] build_partition_key_requirement [of ?k] n k t s
  show ?thesis by simp
qed

text \<open>
  Claim C8 as stated fails: on a builder state without keys whose simple filter has a
  field with no values, \<^verbatim>\<open>build("query")\<close> throws the missing-keys error and
  \<^verbatim>\<open>build("scan")\<close> on the same state does not return a request either: it throws the
  error of the \<^verbatim>\<open>Or\<close> of no comparisons.
\<close>

theorem build_scan_fails_on_empty_values:
  "withFilter (Some [(''status'', [])]) (new_QueryBuilder ''table'')
     = Inr ((new_QueryBuilder ''table'')\<lparr>filter := Some [(''status'', [])]\<rparr>)
   \<and> fst (QueryBuilder_build Query_op
            ((new_QueryBuilder ''table'')\<lparr>filter := Some [(''status'', [])]\<rparr>))
     = Inl (Error missing_keys_message)
   \<and> fst (QueryBuilder_build Scan_op
            ((new_QueryBuilder ''table'')\<lparr>filter := Some [(''status'', [])]\<rparr>))
     = Inl (Error ''Or condition must have at least 2 operands but got: 0'')"
  by (simp add: withFilter_def QueryBuilder_build_def new_QueryBuilder_def Let_def assign_raw_def
                buildIndex_def buildFilter_def generateFilterInput_def
                generateFilterExpression_def field_condition_def
                string_of_nat.simps digit_char_def)

section \<open>Sequential builds of one builder\<close>

text \<open>
  \<^verbatim>\<open>build\<close> replaces the tracker before anything else, so the tracker a builder holds
  from an earlier build has no effect on the next one.
\<close>

lemma build_ignores_old_tracker:
  "QueryBuilder_build operation (b\<lparr>tracker := t\<rparr>) = QueryBuilder_build operation b"
  by (simp add: QueryBuilder_build_def Let_def split: prod.splits sum.splits)

lemmas build_steps =
  QueryBuilder_build_def new_QueryBuilder_def Let_def assign_raw_def
  buildKeys_def buildIndex_def buildFilter_def buildFilterExpression_def buildFields_def
  buildPagination_def buildExpressionAttributeNamesAndValues_def
  new_AttributeTracker_def Eq_def A_def string_operand_def truthy_def
  getName_def getValue_def nullish_def string_of_nat.simps digit_char_def

text \<open>
  Claim C3 does not hold of the code. \<^verbatim>\<open>Object.assign(this.query, ...)\<close> writes into the
  request object the constructor created, and every later step writes into the same
  object, so a second \<^verbatim>\<open>build\<close> starts from the request the first one left. A builder
  with a partition key, built as a query, gives a request with a key condition and its
  name and value maps; building the same builder again as a scan returns all three, though
  a scan of a builder so configured has none of them. And when a build that resumes
  after a key is followed by a build of a first page, the second request still carries
  the first one's start key and scan direction.
\<close>

theorem rebuild_keeps_fields_of_first_build:
  "QueryBuilder_build Query_op keyed_builder
     = (Inr keyed_request,
        keyed_builder
          \<lparr>query := keyed_request,
           tracker := \<lparr>valueCounter = 1, attributeNames = [(''#pk'', ''pk'')],
                       attributeValues = [('':v_sub0'', VStr ''v'')]\<rparr>\<rparr>)
   \<and> fst (QueryBuilder_build Scan_op (snd (QueryBuilder_build Query_op keyed_builder)))
     = Inr keyed_request
   \<and> fst (QueryBuilder_build Scan_op keyed_builder) = Inr (query (new_QueryBuilder ''table''))
   \<and> keyed_request \<noteq> query (new_QueryBuilder ''table'')
   \<and> fst (QueryBuilder_build Query_op
            (withPagination (Some first_page)
               (snd (QueryBuilder_build Query_op
                       (withPagination (Some resumed_page) keyed_builder)))))
     = Inr (keyed_request
              \<lparr>Limit := Some 5,
               ExclusiveStartKey := Some [(''pk'', VStr ''v''), (''sk'', VStr ''9'')],
               ScanIndexForward := Some False\<rparr>)
   \<and> fst (QueryBuilder_build Query_op (withPagination (Some first_page) keyed_builder))
     = Inr (keyed_request\<lparr>Limit := Some 5\<rparr>)"
proof -
  have a: "QueryBuilder_build Query_op keyed_builder
     = (Inr keyed_request,
        keyed_builder
          \<lparr>query := keyed_request,
           tracker := \<lparr>valueCounter = 1, attributeNames = [(''#pk'', ''pk'')],
                       attributeValues = [('':v_sub0'', VStr ''v'')]\<rparr>\<rparr>)"
    by (simp add: keyed_builder_def keyed_request_def build_steps)
  have b: "fst (QueryBuilder_build Scan_op (snd (QueryBuilder_build Query_op keyed_builder)))
     = Inr keyed_request"
    by (simp only: a snd_conv) (simp add: keyed_builder_def keyed_request_def build_steps)
  have c: "fst (QueryBuilder_build Scan_op keyed_builder) = Inr (query (new_QueryBuilder ''table''))"
    by (simp add: keyed_builder_def build_steps)
  have d: "keyed_request \<noteq> query (new_QueryBuilder ''table'')"
    by (simp add: keyed_request_def new_QueryBuilder_def)
  have e: "fst (QueryBuilder_build Query_op
            (withPagination (Some first_page)
               (snd (QueryBuilder_build Query_op
                       (withPagination (Some resumed_page) keyed_builder)))))
     = Inr (keyed_request
              \<lparr>Limit := Some 5,
               ExclusiveStartKey := Some [(''pk'', VStr ''v''), (''sk'', VStr ''9'')],
               ScanIndexForward := Some False\<rparr>)"
    by (simp add: keyed_builder_def keyed_request_def withPagination_def first_page_def
                  resumed_page_def build_steps)
  have f: "fst (QueryBuilder_build Query_op (withPagination (Some first_page) keyed_builder))
     = Inr (keyed_request\<lparr>Limit := Some 5\<rparr>)"
    by (simp add: keyed_builder_def keyed_request_def withPagination_def first_page_def
                  build_steps)
  from a b c d e f show ?thesis by blast
qed

section \<open>The page loop\<close>

lemma next_page_input_follow_up: "next_page_input input n k = follow_up input n k"
  by (simp add: next_page_input_def follow_up_def remaining_limit_def split: option.splits)

lemma accumulated_simps [simp]:
  "accumulated [] = []"
  "accumulated (r # rs) = items_or_empty r @ accumulated rs"
  by (simp_all add: accumulated_def)

lemma page_loop_not_truncated:
  "\<not> hasResultBeenTruncated (Limit input) (Some (length its)) (LastEvaluatedKey prev) \<Longrightarrow>
     page_loop input its prev script = ([], Some (Inr (prev\<lparr>Items := Some its\<rparr>)))"
  by (cases script) simp_all

lemma page_loop_resolved:
  "hasResultBeenTruncated (Limit input) (Some (length its)) (LastEvaluatedKey prev) \<Longrightarrow>
     page_loop input its prev (Resolved r # script)
       = (QueryCommand (follow_up input (length its) (LastEvaluatedKey prev))
            # fst (page_loop input (its @ items_or_empty r) r script),
          snd (page_loop input (its @ items_or_empty r) r script))"
  by (simp add: next_page_input_follow_up split_beta)

lemma page_loop_pages:
  assumes "\<forall>i < length rs.
             hasResultBeenTruncated (Limit input)
               (Some (length (its @ accumulated (take i rs)))) (LastEvaluatedKey ((prev # rs) ! i))"
    and "\<not> hasResultBeenTruncated (Limit input)
               (Some (length (its @ accumulated rs))) (LastEvaluatedKey (last (prev # rs)))"
  shows "page_loop input its prev (map Resolved rs @ rest)
     = (map (\<lambda>i. QueryCommand (follow_up input (length (its @ accumulated (take i rs)))
                                   (LastEvaluatedKey ((prev # rs) ! i)))) [0..<length rs],
        Some (Inr ((last (prev # rs))\<lparr>Items := Some (its @ accumulated rs)\<rparr>)))"
  using assms
proof (induction rs arbitrary: its prev)
  case Nil
  then show ?case by (simp add: page_loop_not_truncated)
next
  case (Cons r rs)
  from Cons.prems(1) have t0: "hasResultBeenTruncated (Limit input) (Some (length its)) (LastEvaluatedKey prev)"
    by fastforce
  have a: "\<forall>i < length rs.
             hasResultBeenTruncated (Limit input)
               (Some (length ((its @ items_or_empty r) @ accumulated (take i rs))))
               (LastEvaluatedKey ((r # rs) ! i))"
  proof (intro allI impI)
    fix i assume "i < length rs"
    then have "Suc i < length (r # rs)" by simp
    with Cons.prems(1) have "hasResultBeenTruncated (Limit input)
               (Some (length (its @ accumulated (take (Suc i) (r # rs)))))
               (LastEvaluatedKey ((prev # r # rs) ! Suc i))" by blast
    then show "hasResultBeenTruncated (Limit input)
               (Some (length ((its @ items_or_empty r) @ accumulated (take i rs))))
               (LastEvaluatedKey ((r # rs) ! i))" by simp
  qed
  from Cons.prems(2) have b: "\<not> hasResultBeenTruncated (Limit input)
               (Some (length ((its @ items_or_empty r) @ accumulated rs)))
               (LastEvaluatedKey (last (r # rs)))" by simp
  from Cons.IH [OF a b] t0 show ?case
    by (simp add: next_page_input_follow_up map_upt_Suc_shift del: upt_Suc)
qed


lemma first_page_then_loop:
  assumes c: "consumed_exactly (Limit input) pages"
  shows "page_loop input (items_or_empty (hd pages)) (hd pages) (map Resolved (tl pages) @ rest)
     = (tl (expected_commands first input pages),
        Some (Inr ((last pages)\<lparr>Items := Some (accumulated pages)\<rparr>)))"
proof -
  from c obtain r rs where p: "pages = r # rs"
    by (cases pages) (auto simp: consumed_exactly_def)
  have a: "\<forall>i < length rs.
             hasResultBeenTruncated (Limit input)
               (Some (length (items_or_empty r @ accumulated (take i rs))))
               (LastEvaluatedKey ((r # rs) ! i))"
    using c by (auto simp: consumed_exactly_def p)
  have b: "\<not> hasResultBeenTruncated (Limit input)
               (Some (length (items_or_empty r @ accumulated rs)))
               (LastEvaluatedKey (last (r # rs)))"
    using c by (auto simp: consumed_exactly_def p)
  from page_loop_pages [OF a b, of rest] show ?thesis
    by (simp add: p expected_commands_def)
qed

lemma queryAll_consumed:
  assumes c: "consumed_exactly (Limit input) pages"
  shows "queryAll input (map Resolved pages @ rest)
     = (expected_commands QueryCommand input pages,
        Some (Inr ((last pages)\<lparr>Items := Some (accumulated pages)\<rparr>)))"
proof -
  from c obtain r rs where p: "pages = r # rs"
    by (cases pages) (auto simp: consumed_exactly_def)
  from first_page_then_loop [OF c, of rest QueryCommand] show ?thesis
    by (simp add: queryAll_def p expected_commands_def)
qed

lemma scanAll_consumed:
  assumes c: "consumed_exactly (Limit input) pages"
  shows "scanAll input (map Resolved pages @ rest)
     = (expected_commands ScanCommand input pages,
        Some (Inr ((last pages)\<lparr>Items := Some (accumulated pages)\<rparr>)))"
proof -
  from c obtain r rs where p: "pages = r # rs"
    by (cases pages) (auto simp: consumed_exactly_def)
  from first_page_then_loop [OF c, of rest ScanCommand] show ?thesis
    by (simp add: scanAll_def p expected_commands_def)
qed

lemma expected_commands_nth:
  "length (expected_commands first input pages) = Suc (length pages - 1)"
  "expected_commands first input pages ! 0 = first input"
  "Suc i < length pages \<Longrightarrow>
     expected_commands first input pages ! Suc i
       = QueryCommand (follow_up input (length (accumulated (take (Suc i) pages)))
                         (LastEvaluatedKey (pages ! i)))"
  by (simp_all add: expected_commands_def)


lemma page_loop_returned:
  "page_loop input its prev script = (cmds, Some (Inr out)) \<Longrightarrow>
     \<exists>rs rest. script = map Resolved rs @ rest
       \<and> (\<forall>i < length rs.
             hasResultBeenTruncated (Limit input)
               (Some (length (its @ accumulated (take i rs)))) (LastEvaluatedKey ((prev # rs) ! i)))
       \<and> \<not> hasResultBeenTruncated (Limit input)
               (Some (length (its @ accumulated rs))) (LastEvaluatedKey (last (prev # rs)))"
proof (induction script arbitrary: its prev cmds)
  case Nil
  then have "\<not> hasResultBeenTruncated (Limit input) (Some (length its)) (LastEvaluatedKey prev)"
    by (auto split: if_splits)
  then show ?case by (intro exI [of _ "[]"]) simp
next
  case (Cons rep script)
  show ?case
  proof (cases "hasResultBeenTruncated (Limit input) (Some (length its)) (LastEvaluatedKey prev)")
    case False
    have "rep # script = map Resolved [] @ rep # script" by simp
    moreover have "\<forall>i < length ([] :: QueryCommandOutput list).
             hasResultBeenTruncated (Limit input)
               (Some (length (its @ accumulated (take i []))))
               (LastEvaluatedKey ((prev # []) ! i))" by simp
    moreover from False have "\<not> hasResultBeenTruncated (Limit input)
               (Some (length (its @ accumulated [])))
               (LastEvaluatedKey (last (prev # [])))" by simp
    ultimately show ?thesis by blast
  next
    case True
    with Cons.prems obtain r where rep: "rep = Resolved r"
      by (cases rep) auto
    from Cons.prems True rep
    have "page_loop input (its @ items_or_empty r) r script
            = (fst (page_loop input (its @ items_or_empty r) r script), Some (Inr out))"
      by (auto simp: split_beta prod_eq_iff)
    from Cons.IH [OF this] obtain rs rest where
      s: "script = map Resolved rs @ rest"
      and a: "\<forall>i < length rs.
             hasResultBeenTruncated (Limit input)
               (Some (length ((its @ items_or_empty r) @ accumulated (take i rs))))
               (LastEvaluatedKey ((r # rs) ! i))"
      and b: "\<not> hasResultBeenTruncated (Limit input)
               (Some (length ((its @ items_or_empty r) @ accumulated rs)))
               (LastEvaluatedKey (last (r # rs)))" by blast
    have a': "\<forall>i < length (r # rs).
             hasResultBeenTruncated (Limit input)
               (Some (length (its @ accumulated (take i (r # rs)))))
               (LastEvaluatedKey ((prev # r # rs) ! i))"
    proof (intro allI impI)
      fix i assume i: "i < length (r # rs)"
      show "hasResultBeenTruncated (Limit input)
               (Some (length (its @ accumulated (take i (r # rs)))))
               (LastEvaluatedKey ((prev # r # rs) ! i))"
      proof (cases i)
        case 0
        with True show ?thesis by simp
      next
        case (Suc j)
        with i a show ?thesis by simp
      qed
    qed
    from b have b': "\<not> hasResultBeenTruncated (Limit input)
               (Some (length (its @ accumulated (r # rs))))
               (LastEvaluatedKey (last (prev # r # rs)))" by simp
    from s rep have "rep # script = map Resolved (r # rs) @ rest" by simp
    with a' b' show ?thesis by blast
  qed
qed

lemma queryAll_returned:
  assumes "queryAll input script = (cmds, Some (Inr out))"
  shows "\<exists>pages rest. script = map Resolved pages @ rest \<and> consumed_exactly (Limit input) pages"
proof -
  from assms obtain r script' where sc: "script = Resolved r # script'"
    by (cases script) (auto simp: queryAll_def split: reply.splits)
  from assms sc
  have "page_loop input (items_or_empty r) r script'
          = (fst (page_loop input (items_or_empty r) r script'), Some (Inr out))"
    by (auto simp: queryAll_def split_beta prod_eq_iff)
  from page_loop_returned [OF this] obtain rs rest where
    s: "script' = map Resolved rs @ rest"
    and a: "\<forall>i < length rs.
             hasResultBeenTruncated (Limit input)
               (Some (length (items_or_empty r @ accumulated (take i rs))))
               (LastEvaluatedKey ((r # rs) ! i))"
    and b: "\<not> hasResultBeenTruncated (Limit input)
               (Some (length (items_or_empty r @ accumulated rs)))
               (LastEvaluatedKey (last (r # rs)))" by blast
  from a b have "consumed_exactly (Limit input) (r # rs)"
    by (simp add: consumed_exactly_def)
  moreover from s sc have "script = map Resolved (r # rs) @ rest" by simp
  ultimately show ?thesis by blast
qed

lemma page_loop_sends_queries:
  "\<forall>c \<in> set (fst (page_loop input its prev script)). \<exists>q. c = QueryCommand q"
proof (induction script arbitrary: its prev)
  case Nil
  show ?case by simp
next
  case (Cons rep script)
  show ?case
  proof (cases rep)
    case (Resolved r)
    with Cons.IH [of "its @ items_or_empty r" r] show ?thesis
      by (simp add: split_beta)
  next
    case (Rejected e)
    then show ?thesis by simp
  qed
qed

lemma page_loop_truncated_first:
  assumes "hasResultBeenTruncated (Limit input) (Some (length its)) (LastEvaluatedKey prev)"
  shows "\<exists>more. fst (page_loop input its prev script)
           = QueryCommand (follow_up input (length its) (LastEvaluatedKey prev)) # more"
proof (cases script)
  case Nil
  with assms show ?thesis by (simp add: next_page_input_follow_up)
next
  case (Cons rep script')
  with assms show ?thesis
    by (cases rep) (simp_all add: next_page_input_follow_up split_beta)
qed


lemmas fetch_steps =
  queryAll_def scanAll_def hasResultBeenTruncated_def next_page_input_def remaining_limit_def
  items_or_empty_def nullish_def Let_def page1_def page2_def page3_def request_def

lemma scenario_limit_3:
  "queryAll (request (Some 3)) [Resolved page1, Resolved page2, Resolved page3]
     = ([QueryCommand (request (Some 3))],
        Some (Inr (page1\<lparr>Items := Some [item_n 1, item_n 2, item_n 3]\<rparr>)))"
  by (simp add: fetch_steps)

lemma scenario_limit_6:
  "queryAll (request (Some 6)) [Resolved page1, Resolved page2, Resolved page3]
     = ([QueryCommand (request (Some 6)),
         QueryCommand ((request (Some 6))\<lparr>Limit := Some 3, ExclusiveStartKey := Some (item_n 3)\<rparr>)],
        Some (Inr (page2\<lparr>Items := Some [item_n 1, item_n 2, item_n 3,
                                          item_n 4, item_n 5, item_n 6]\<rparr>)))"
  by (simp add: fetch_steps)

lemma scenario_limit_10:
  "queryAll (request (Some 10)) [Resolved page1, Resolved page2, Resolved page3]
     = ([QueryCommand (request (Some 10)),
         QueryCommand ((request (Some 10))\<lparr>Limit := Some 7, ExclusiveStartKey := Some (item_n 3)\<rparr>),
         QueryCommand ((request (Some 10))\<lparr>Limit := Some 4, ExclusiveStartKey := Some (item_n 6)\<rparr>)],
        Some (Inr (page3\<lparr>Items := Some [item_n 1, item_n 2, item_n 3, item_n 4, item_n 5,
                                          item_n 6, item_n 7, item_n 8, item_n 9]\<rparr>)))"
  by (simp add: fetch_steps)

lemma scenario_no_limit:
  "queryAll (request None) [Resolved page1, Resolved page2, Resolved page3]
     = ([QueryCommand (request None),
         QueryCommand ((request None)\<lparr>Limit := None, ExclusiveStartKey := Some (item_n 3)\<rparr>),
         QueryCommand ((request None)\<lparr>Limit := None, ExclusiveStartKey := Some (item_n 6)\<rparr>)],
        Some (Inr (page3\<lparr>Items := Some [item_n 1, item_n 2, item_n 3, item_n 4, item_n 5,
                                          item_n 6, item_n 7, item_n 8, item_n 9]\<rparr>)))"
  by (simp add: fetch_steps)

text \<open>
  Claim C2, as amended. Whenever the replies start with pages that the loop consumes
  exactly, \<^verbatim>\<open>queryAll\<close> returns, having sent one command per page: first the request
  itself, then for every further page a \<^verbatim>\<open>QueryCommand\<close> on the request with the limit
  replaced by the original limit minus the number of items accumulated so far (no limit if
  none or 0 was requested) and the exclusive start key replaced by the previous page's
  continuation key, and nothing else changed. The output is the last page's with all the
  pages' items, in order. Conversely every run that returns an output has consumed such
  pages. In the scenario of the specification: limit 3, one call and 3 items; limit 6, two
  calls, the second with limit 3, and 6 items; limit 10, three calls and 9 items; no
  limit, three calls and 9 items.
\<close>

theorem queryAll_pagination:
  "(consumed_exactly (Limit input) pages \<longrightarrow>
      (\<exists>cmds. queryAll input (map Resolved pages @ rest)
                 = (cmds, Some (Inr ((last pages)\<lparr>Items := Some (accumulated pages)\<rparr>)))
         \<and> length cmds = length pages
         \<and> cmds ! 0 = QueryCommand input
         \<and> (\<forall>i. Suc i < length pages \<longrightarrow>
               cmds ! Suc i
                 = QueryCommand
                     (input\<lparr>Limit := (case Limit input of
                                         None \<Rightarrow> None
                                       | Some l \<Rightarrow>
                                           if l = 0 then None
                                           else Some (l - int (length (accumulated (take (Suc i) pages))))),
                            ExclusiveStartKey := LastEvaluatedKey (pages ! i)\<rparr>))))
   \<and> (queryAll input script = (sent, Some (Inr out)) \<longrightarrow>
        (\<exists>pages rest. script = map Resolved pages @ rest \<and> consumed_exactly (Limit input) pages))
   \<and> queryAll (request (Some 3)) [Resolved page1, Resolved page2, Resolved page3]
     = ([QueryCommand (request (Some 3))],
        Some (Inr (page1\<lparr>Items := Some [item_n 1, item_n 2, item_n 3]\<rparr>)))
   \<and> queryAll (request (Some 6)) [Resolved page1, Resolved page2, Resolved page3]
     = ([QueryCommand (request (Some 6)),
         QueryCommand ((request (Some 6))\<lparr>Limit := Some 3, ExclusiveStartKey := Some (item_n 3)\<rparr>)],
        Some (Inr (page2\<lparr>Items := Some [item_n 1, item_n 2, item_n 3,
                                          item_n 4, item_n 5, item_n 6]\<rparr>)))
   \<and> queryAll (request (Some 10)) [Resolved page1, Resolved page2, Resolved page3]
     = ([QueryCommand (request (Some 10)),
         QueryCommand ((request (Some 10))\<lparr>Limit := Some 7, ExclusiveStartKey := Some (item_n 3)\<rparr>),
         QueryCommand ((request (Some 10))\<lparr>Limit := Some 4, ExclusiveStartKey := Some (item_n 6)\<rparr>)],
        Some (Inr (page3\<lparr>Items := Some [item_n 1, item_n 2, item_n 3, item_n 4, item_n 5,
                                          item_n 6, item_n 7, item_n 8, item_n 9]\<rparr>)))
   \<and> queryAll (request None) [Resolved page1, Resolved page2, Resolved page3]
     = ([QueryCommand (request None),
         QueryCommand ((request None)\<lparr>Limit := None, ExclusiveStartKey := Some (item_n 3)\<rparr>),
         QueryCommand ((request None)\<lparr>Limit := None, ExclusiveStartKey := Some (item_n 6)\<rparr>)],
        Some (Inr (page3\<lparr>Items := Some [item_n 1, item_n 2, item_n 3, item_n 4, item_n 5,
                                          item_n 6, item_n 7, item_n 8, item_n 9]\<rparr>)))"
proof -
  have fwd: "\<exists>cmds. queryAll input (map Resolved pages @ rest)
                 = (cmds, Some (Inr ((last pages)\<lparr>Items := Some (accumulated pages)\<rparr>)))
         \<and> length cmds = length pages
         \<and> cmds ! 0 = QueryCommand input
         \<and> (\<forall>i. Suc i < length pages \<longrightarrow>
               cmds ! Suc i
                 = QueryCommand
                     (input\<lparr>Limit := (case Limit input of
                                         None \<Rightarrow> None
                                       | Some l \<Rightarrow>
                                           if l = 0 then None
                                           else Some (l - int (length (accumulated (take (Suc i) pages))))),
                            ExclusiveStartKey := LastEvaluatedKey (pages ! i)\<rparr>))"
    if c: "consumed_exactly (Limit input) pages"
  proof -
    from c have ne: "pages \<noteq> []" by (simp add: consumed_exactly_def)
    then have l: "length (expected_commands QueryCommand input pages) = length pages"
      by (cases pages) (simp_all add: expected_commands_nth(1))
    from queryAll_consumed [OF c, of rest] l
         expected_commands_nth(2) [of QueryCommand input pages]
         expected_commands_nth(3) [of _ pages QueryCommand input]
    show ?thesis by (simp add: follow_up_def)
  qed
  have bwd: "\<exists>pages rest. script = map Resolved pages @ rest \<and> consumed_exactly (Limit input) pages"
    if "queryAll input script = (sent, Some (Inr out))"
    using that by (rule queryAll_returned)
  from fwd bwd scenario_limit_3 scenario_limit_6 scenario_limit_10 scenario_no_limit
  show ?thesis by blast
qed

theorem queryAll_pagination_witness:
  "consumed_exactly (Limit (request (Some 6))) [page1, page2]
   \<and> snd (queryAll (request (Some 6)) [Resolved page1, Resolved page2, Resolved page3])
     = Some (Inr (page2\<lparr>Items := Some [item_n 1, item_n 2, item_n 3,
                                        item_n 4, item_n 5, item_n 6]\<rparr>))
   \<and> length (fst (queryAll (request (Some 6)) [Resolved page1, Resolved page2, Resolved page3])) = 2"
proof -
  have c: "consumed_exactly (Limit (request (Some 6))) [page1, page2]"
    by (simp add: consumed_exactly_def fetch_steps)
  have a: "accumulated [page1, page2]
             = [item_n 1, item_n 2, item_n 3, item_n 4, item_n 5, item_n 6]"
    by (simp add: fetch_steps)
  from queryAll_pagination
         [where input = "request (Some 6)" and pages = "[page1, page2]"
            and rest = "[Resolved page3]"] c
  obtain cmds where
    "queryAll (request (Some 6)) (map Resolved [page1, page2] @ [Resolved page3])
       = (cmds, Some (Inr ((last [page1, page2])\<lparr>Items := Some (accumulated [page1, page2])\<rparr>)))"
    and "length cmds = length [page1, page2]"
    by blast
  with c a show ?thesis by simp
qed

text \<open>
  Claim C2 as stated fails for a requested limit of 0: after a first page of three items
  with a continuation key, the follow-up call has no limit, not the limit 0 minus 3.
\<close>

theorem zero_limit_follow_up_has_no_limit:
  "queryAll (request (Some 0)) [Resolved page1, Resolved page3]
     = ([QueryCommand (request (Some 0)),
         QueryCommand ((request (Some 0))\<lparr>Limit := None, ExclusiveStartKey := Some (item_n 3)\<rparr>)],
        Some (Inr (page3\<lparr>Items := Some [item_n 1, item_n 2, item_n 3,
                                          item_n 7, item_n 8, item_n 9]\<rparr>)))
   \<and> Limit ((request (Some 0))\<lparr>Limit := None, ExclusiveStartKey := Some (item_n 3)\<rparr>)
     \<noteq> Some (0 - int (length [item_n 1, item_n 2, item_n 3]))"
  by (simp add: fetch_steps)

text \<open>
  Claim C4. Whatever the replies, \<^verbatim>\<open>scanAll\<close> sends first a \<^verbatim>\<open>ScanCommand\<close> on the scan
  input, and every command it sends after that is a \<^verbatim>\<open>QueryCommand\<close>. When the first
  response is judged truncated, a second command is sent, and it is the \<^verbatim>\<open>QueryCommand\<close>
  on the scan input with the limit adjusted and the exclusive start key set to the first
  response's continuation key. When the replies start with pages that the loop consumes
  exactly, the commands are the \<^verbatim>\<open>ScanCommand\<close> followed by one such \<^verbatim>\<open>QueryCommand\<close>
  for every further page, and the scan returns all the pages' items.
\<close>

theorem scanAll_follow_ups_are_queries:
  "(\<exists>more. fst (scanAll input script) = ScanCommand input # more
            \<and> (\<forall>c \<in> set more. \<exists>q. c = QueryCommand q))
   \<and> (hasResultBeenTruncated (Limit input) (Some (length (items_or_empty r))) (LastEvaluatedKey r)
        \<longrightarrow> (\<exists>more. fst (scanAll input (Resolved r # rest))
                       = ScanCommand input
                           # QueryCommand (follow_up input (length (items_or_empty r))
                                             (LastEvaluatedKey r))
                           # more))
   \<and> (consumed_exactly (Limit input) pages \<longrightarrow>
        scanAll input (map Resolved pages @ rest)
          = (ScanCommand input
               # map (\<lambda>i. QueryCommand
                             (follow_up input (length (accumulated (take (Suc i) pages)))
                                (LastEvaluatedKey (pages ! i))))
                     [0..<length pages - 1],
             Some (Inr ((last pages)\<lparr>Items := Some (accumulated pages)\<rparr>))))"
proof -
  have a: "\<exists>more. fst (scanAll input script) = ScanCommand input # more
            \<and> (\<forall>c \<in> set more. \<exists>q. c = QueryCommand q)"
  proof (cases script)
    case Nil
    then show ?thesis by (simp add: scanAll_def)
  next
    case (Cons rep script')
    show ?thesis
    proof (cases rep)
      case (Resolved r0)
      with Cons page_loop_sends_queries [of input "items_or_empty r0" r0 script']
      show ?thesis by (simp add: scanAll_def split_beta)
    next
      case (Rejected e)
      with Cons show ?thesis by (simp add: scanAll_def)
    qed
  qed
  have b: "\<exists>more. fst (scanAll input (Resolved r # rest))
                       = ScanCommand input
                           # QueryCommand (follow_up input (length (items_or_empty r))
                                             (LastEvaluatedKey r))
                           # more"
    if "hasResultBeenTruncated (Limit input) (Some (length (items_or_empty r))) (LastEvaluatedKey r)"
    using page_loop_truncated_first [OF that, of rest]
    by (auto simp: scanAll_def split_beta)
  have c: "scanAll input (map Resolved pages @ rest)
          = (ScanCommand input
               # map (\<lambda>i. QueryCommand
                             (follow_up input (length (accumulated (take (Suc i) pages)))
                                (LastEvaluatedKey (pages ! i))))
                     [0..<length pages - 1],
             Some (Inr ((last pages)\<lparr>Items := Some (accumulated pages)\<rparr>)))"
    if "consumed_exactly (Limit input) pages"
    using scanAll_consumed [OF that, of rest] by (simp add: expected_commands_def)
  from a b c show ?thesis by blast
qed

theorem scanAll_follow_ups_are_queries_witness:
  "hasResultBeenTruncated (Limit (request None)) (Some (length (items_or_empty page1)))
     (LastEvaluatedKey page1)
   \<and> consumed_exactly (Limit (request None)) [page1, page2, page3]
   \<and> scanAll (request None) [Resolved page1, Resolved page2, Resolved page3]
     = ([ScanCommand (request None),
         QueryCommand ((request None)\<lparr>Limit := None, ExclusiveStartKey := Some (item_n 3)\<rparr>),
         QueryCommand ((request None)\<lparr>Limit := None, ExclusiveStartKey := Some (item_n 6)\<rparr>)],
        Some (Inr (page3\<lparr>Items := Some [item_n 1, item_n 2, item_n 3, item_n 4, item_n 5,
                                          item_n 6, item_n 7, item_n 8, item_n 9]\<rparr>)))"
proof -
  have t: "hasResultBeenTruncated (Limit (request None)) (Some (length (items_or_empty page1)))
     (LastEvaluatedKey page1)"
    by (simp add: fetch_steps)
  have c: "consumed_exactly (Limit (request None)) [page1, page2, page3]"
    by (simp add: consumed_exactly_def fetch_steps less_Suc_eq)
  have n: "[0..<length [page1, page2, page3] - 1] = [0, 1]" by (simp add: upt_rec)
  from scanAll_follow_ups_are_queries
         [where input = "request None" and pages = "[page1, page2, page3]" and rest = "[]"] c
  have "scanAll (request None) (map Resolved [page1, page2, page3] @ [])
          = (ScanCommand (request None)
               # map (\<lambda>i. QueryCommand
                             (follow_up (request None)
                                (length (accumulated (take (Suc i) [page1, page2, page3])))
                                (LastEvaluatedKey ([page1, page2, page3] ! i))))
                     [0..<length [page1, page2, page3] - 1],
             Some (Inr ((last [page1, page2, page3])
                          \<lparr>Items := Some (accumulated [page1, page2, page3])\<rparr>)))"
    by blast
  then have "scanAll (request None) [Resolved page1, Resolved page2, Resolved page3]
     = ([ScanCommand (request None),
         QueryCommand ((request None)\<lparr>Limit := None, ExclusiveStartKey := Some (item_n 3)\<rparr>),
         QueryCommand ((request None)\<lparr>Limit := None, ExclusiveStartKey := Some (item_n 6)\<rparr>)],
        Some (Inr (page3\<lparr>Items := Some [item_n 1, item_n 2, item_n 3, item_n 4, item_n 5,
                                          item_n 6, item_n 7, item_n 8, item_n 9]\<rparr>)))"
    by (simp only: n) (simp add: follow_up_def fetch_steps)
  with t c show ?thesis by blast
qed

end
